theory Spec2Isabelle
  imports Main "HOL-Library.Word" "HOL-Library.Signed_Division" "HOL-Library.Sublist"
begin

section \<open>Time and rate conversions (lib/src/time.cpp)\<close>

subsection \<open>Machine integers and the rate structure\<close>

type_synonym u32 = "32 word"
type_synonym u64 = "64 word"
type_synonym i64 = "64 word"
type_synonym i128 = "128 word"

text \<open>
  The C structure \<open>Rational\<close> has two \<open>uint32_t\<close> fields. A \<open>Rational const*\<close>
  argument is an optional value: \<open>None\<close> is the null pointer.
\<close>

record Rational =
  numerator :: u32
  denominator :: u32

definition MAX_REASONABLE_NUMERATOR :: u32 where
  "MAX_REASONABLE_NUMERATOR = 1000000000"

definition MAX_REASONABLE_DENOMINATOR :: u32 where
  "MAX_REASONABLE_DENOMINATOR = 1000000000"

definition MIN_REASONABLE_RATE_COMPONENT :: u32 where
  "MIN_REASONABLE_RATE_COMPONENT = 1"

definition MAX_REASONABLE_TIMESTAMP :: u64 where
  "MAX_REASONABLE_TIMESTAMP = 18446744073709551615 div 2"

text \<open>
  Modelled from the spec: the macro \<open>MXL_UNDEFINED_INDEX\<close> is declared in
  \<open>mxl/time.h\<close>, which is not among the sources. The specification fixes it as the
  all-ones 64-bit value.
\<close>

definition MXL_UNDEFINED_INDEX :: u64 where
  "MXL_UNDEFINED_INDEX = 18446744073709551615"

definition UINT64_MAX_i128 :: i128 where
  "UINT64_MAX_i128 = 18446744073709551615"

definition INT128_MAX :: i128 where
  "INT128_MAX = 170141183460469231731687303715884105727"

subsection \<open>Validation helpers\<close>

definition isValidEditRate :: "Rational option \<Rightarrow> bool" where
  "isValidEditRate editRate =
     (case editRate of
        None \<Rightarrow> False
      | Some r \<Rightarrow>
          if denominator r = 0 \<or> numerator r = 0 then False
          else if numerator r > MAX_REASONABLE_NUMERATOR \<or>
                  denominator r > MAX_REASONABLE_DENOMINATOR then False
          else if numerator r < MIN_REASONABLE_RATE_COMPONENT \<or>
                  denominator r < MIN_REASONABLE_RATE_COMPONENT then False
          else True)"

definition isValidTimestamp :: "u64 \<Rightarrow> bool" where
  "isValidTimestamp timestamp =
     (if timestamp = MXL_UNDEFINED_INDEX then False
      else if timestamp > MAX_REASONABLE_TIMESTAMP then False
      else True)"

definition isValidIndex :: "u64 \<Rightarrow> bool" where
  "isValidIndex index =
     (if index = MXL_UNDEFINED_INDEX then False
      else if index > MAX_REASONABLE_TIMESTAMP then False
      else True)"

text \<open>
  \<open>safecast128ToUint64\<close>: the argument is a signed 128-bit value; the comparisons are
  signed, the final cast keeps the low 64 bits.
\<close>

definition safecast128ToUint64 :: "i128 \<Rightarrow> u64" where
  "safecast128ToUint64 v =
     (if sint v < 0 then MXL_UNDEFINED_INDEX
      else if sint v > sint UINT64_MAX_i128 then MXL_UNDEFINED_INDEX
      else if (ucast v :: u64) > MAX_REASONABLE_TIMESTAMP then MXL_UNDEFINED_INDEX
      else ucast v)"

text \<open>
  Division of two \<open>__int128_t\<close> values truncates towards zero.
\<close>

definition sdiv128 :: "i128 \<Rightarrow> i128 \<Rightarrow> i128" where
  "sdiv128 a b = word_of_int (sint a sdiv sint b)"

subsection \<open>The clock\<close>

text \<open>
  \<open>currentTime(Clock::TAI)\<close> and the type of its result live in
  \<open>internal/Timing.hpp\<close>, which is not among the sources. The result is taken as a
  parameter: \<open>tp_ok\<close> is what the conversion of the time point to \<open>bool\<close> yields,
  \<open>tp_value\<close> its signed 64-bit nanosecond count.
\<close>

record Timepoint =
  tp_ok :: bool
  tp_value :: i64

definition mxlGetTime :: "Timepoint \<Rightarrow> u64" where
  "mxlGetTime timepoint =
     (if \<not> tp_ok timepoint then 0
      else if sint (tp_value timepoint) < 0 then 0
      else let result = tp_value timepoint in
        if result > MAX_REASONABLE_TIMESTAMP then 0 else result)"

subsection \<open>Conversions\<close>

definition mxlTimestampToIndex :: "Rational option \<Rightarrow> u64 \<Rightarrow> u64" where
  "mxlTimestampToIndex editRate timestamp =
     (if \<not> isValidEditRate editRate then MXL_UNDEFINED_INDEX
      else if \<not> isValidTimestamp timestamp then MXL_UNDEFINED_INDEX
      else case editRate of
        None \<Rightarrow> MXL_UNDEFINED_INDEX
      | Some r \<Rightarrow>
          let num = (ucast timestamp :: i128) * ucast (numerator r);
              rounding = (scast ((500000000 :: i64) * ucast (denominator r)) :: i128);
              den = (scast ((1000000000 :: i64) * ucast (denominator r)) :: i128)
          in if sint num < 0 \<or> sint rounding < 0 \<or> sint den \<le> 0 then MXL_UNDEFINED_INDEX
             else if sint num > sint (INT128_MAX - rounding) then MXL_UNDEFINED_INDEX
             else safecast128ToUint64 (sdiv128 (num + rounding) den))"

definition mxlIndexToTimestamp :: "Rational option \<Rightarrow> u64 \<Rightarrow> u64" where
  "mxlIndexToTimestamp editRate index =
     (if \<not> isValidEditRate editRate then MXL_UNDEFINED_INDEX
      else if \<not> isValidIndex index then MXL_UNDEFINED_INDEX
      else case editRate of
        None \<Rightarrow> MXL_UNDEFINED_INDEX
      | Some r \<Rightarrow>
          let num = (ucast index :: i128) * ucast (denominator r) * 1000000000;
              rounding = sdiv128 (ucast (numerator r)) 2;
              den = (ucast (numerator r) :: i128)
          in if sint num < 0 \<or> sint rounding < 0 \<or> sint den \<le> 0 then MXL_UNDEFINED_INDEX
             else if sint num > sint (INT128_MAX - rounding) then MXL_UNDEFINED_INDEX
             else safecast128ToUint64 (sdiv128 (num + rounding) den))"

definition mxlGetCurrentIndex :: "Timepoint \<Rightarrow> Rational option \<Rightarrow> u64" where
  "mxlGetCurrentIndex clock editRate =
     (if \<not> isValidEditRate editRate then MXL_UNDEFINED_INDEX
      else let now = mxlGetTime clock in
        if now = 0 then MXL_UNDEFINED_INDEX
        else mxlTimestampToIndex editRate now)"

definition mxlGetNsUntilIndex :: "Timepoint \<Rightarrow> u64 \<Rightarrow> Rational option \<Rightarrow> u64" where
  "mxlGetNsUntilIndex clock index editRate =
     (if \<not> isValidEditRate editRate then MXL_UNDEFINED_INDEX
      else if \<not> isValidIndex index then MXL_UNDEFINED_INDEX
      else let targetNs = mxlIndexToTimestamp editRate index in
        if targetNs = MXL_UNDEFINED_INDEX then MXL_UNDEFINED_INDEX
        else let nowNs = mxlGetTime clock in
          if nowNs = 0 then MXL_UNDEFINED_INDEX
          else if targetNs < nowNs then 0
          else let diff = targetNs - nowNs in
            if diff > MAX_REASONABLE_TIMESTAMP then MXL_UNDEFINED_INDEX
            else diff)"

subsection \<open>Exact arithmetic, for comparison\<close>

text \<open>
  The two predicates below follow the specification's words "arithmetic that would
  overflow the 128-bit intermediate": they say that the exact integer value of the largest
  intermediate of a conversion lies above the greatest \<open>__int128_t\<close>.
\<close>

definition timestampMathOverflows :: "Rational \<Rightarrow> u64 \<Rightarrow> bool" where
  "timestampMathOverflows r ts \<longleftrightarrow>
     2 ^ 127 - 1 < uint ts * uint (numerator r) + 500000000 * uint (denominator r)"

definition indexMathOverflows :: "Rational \<Rightarrow> u64 \<Rightarrow> bool" where
  "indexMathOverflows r idx \<longleftrightarrow>
     2 ^ 127 - 1 < uint idx * uint (denominator r) * 1000000000 + uint (numerator r) div 2"

section \<open>Flow directories (lib/src/internal/FlowManager.cpp)\<close>

subsection \<open>Flow headers\<close>

text \<open>
  A flow identifier is the 16-byte value of \<open>uuids::uuid\<close>. The header structures are
  declared in headers that are not among the sources; the records below carry the fields
  that \<open>FlowManager.cpp\<close> assigns. The fields holding \<open>sizeof\<close> values are left out.
  \<open>DiscreteFlowInfo\<close> holds \<open>grainRate\<close>, \<open>grainCount\<close> and \<open>syncCounter\<close>;
  \<open>ContinuousFlowInfo\<close> holds \<open>sampleRate\<close>, \<open>channelCount\<close> and \<open>bufferLength\<close>.
\<close>

type_synonym uuid = "128 word"

record CommonFlowInfo =
  flow_id :: uuid
  lastWriteTime :: u64
  lastReadTime :: u64
  format :: int

datatype FlowShape =
    Unset
  | DiscreteFlowInfo Rational nat nat
  | ContinuousFlowInfo Rational nat nat

record FlowInfo =
  version :: nat
  common :: CommonFlowInfo
  shape :: FlowShape

record GrainInfo =
  grainSize :: nat
  grain_version :: nat
  deviceIndex :: int

datatype FlowData =
    DiscreteFlowData FlowInfo "GrainInfo list"
  | ContinuousFlowData FlowInfo

subsection \<open>The filesystem\<close>

text \<open>
  A path is the list of its components. The filesystem is an association list with one
  entry for every existing path: a directory, or a regular file with its contents.
\<close>

type_synonym path = "string list"

datatype content =
    Text string
  | FlowSegment FlowInfo
  | GrainSegment GrainInfo
  | ChannelSegment nat

datatype node = Directory | RegularFile content

type_synonym filesystem = "(path \<times> node) list"

datatype errc =
  no_such_file_or_directory | not_a_directory | io_error | file_exists | os_error

text \<open>
  How a call of \<open>remove_all\<close> ends: it completes, or it fails part of the way. A failing
  call has removed some entries of the subtree and left others: \<open>Fails keep\<close> leaves the
  entries that \<open>keep\<close> names, together with the directories above them.
\<close>

datatype removal = Completes | Fails "path \<Rightarrow> bool"

datatype error =
    filesystem_error errc
  | runtime_error
  | invalid_argument
  | other_exception

type_synonym 'a result = "(error + 'a) \<times> filesystem"

definition exists_path :: "filesystem \<Rightarrow> path \<Rightarrow> bool" where
  "exists_path fs p \<longleftrightarrow> map_of fs p \<noteq> None"

definition is_directory :: "filesystem \<Rightarrow> path \<Rightarrow> bool" where
  "is_directory fs p \<longleftrightarrow> map_of fs p = Some Directory"

text \<open>Every entry but the root lies in a directory.\<close>

definition wellformed :: "filesystem \<Rightarrow> bool" where
  "wellformed fs \<longleftrightarrow> list_all (\<lambda>p. p = [] \<or> is_directory fs (butlast p)) (map fst fs)"

definition store :: "path \<Rightarrow> node \<Rightarrow> filesystem \<Rightarrow> filesystem" where
  "store p n fs = (p, n) # filter (\<lambda>e. fst e \<noteq> p) fs"

definition remove_all_fs :: "path \<Rightarrow> filesystem \<Rightarrow> filesystem" where
  "remove_all_fs p fs = filter (\<lambda>e. \<not> prefix p (fst e)) fs"

text \<open>
  What a failing \<open>remove_all\<close> of \<open>p\<close> leaves: everything outside the subtree of \<open>p\<close>, and
  inside it the entries named by \<open>keep\<close> with the directories on the way to them.
\<close>

definition left_behind :: "(path \<Rightarrow> bool) \<Rightarrow> path \<Rightarrow> filesystem \<Rightarrow> filesystem" where
  "left_behind keep p fs =
     filter (\<lambda>e. if prefix p (fst e)
                 then list_ex (\<lambda>e'. prefix (fst e) (fst e') \<and> keep (fst e')) fs
                 else True) fs"

text \<open>
  The operations of the C library and of \<open>std::filesystem\<close> that the flow manager
  calls. Each takes a value saying whether the operating system refuses the call; a
  refused call of one of the creating operations leaves the filesystem as it was.
  \<open>mkdtemp\<close> reports the error number of its failure.
\<close>

definition mkdtemp :: "errc option \<Rightarrow> path \<Rightarrow> filesystem \<Rightarrow> errc + filesystem" where
  "mkdtemp refused p fs =
     (case refused of
        Some e \<Rightarrow> Inl e
      | None \<Rightarrow>
          if \<not> exists_path fs (butlast p) then Inl no_such_file_or_directory
          else if \<not> is_directory fs (butlast p) then Inl not_a_directory
          else if exists_path fs p then Inl file_exists
          else Inr (store p Directory fs))"

definition ofstream_open :: "bool \<Rightarrow> path \<Rightarrow> filesystem \<Rightarrow> filesystem option" where
  "ofstream_open refused p fs =
     (if refused \<or> \<not> is_directory fs (butlast p) \<or> is_directory fs p then None
      else Some (store p (RegularFile (Text [])) fs))"

definition create_directory :: "bool \<Rightarrow> path \<Rightarrow> filesystem \<Rightarrow> error + bool \<times> filesystem" where
  "create_directory refused p fs =
     (if refused \<or> \<not> is_directory fs (butlast p) then Inl (filesystem_error os_error)
      else if is_directory fs p then Inr (False, fs)
      else if exists_path fs p then Inl (filesystem_error file_exists)
      else Inr (True, store p Directory fs))"

definition permissions :: "bool \<Rightarrow> path \<Rightarrow> filesystem \<Rightarrow> error + filesystem" where
  "permissions refused p fs =
     (if refused then Inl (filesystem_error os_error)
      else if \<not> exists_path fs p then Inl (filesystem_error no_such_file_or_directory)
      else Inr fs)"

text \<open>
  \<open>rename\<close>: the destination may be missing, a file replaced by a file, or an empty
  directory replaced by a directory; every entry at or below the source moves to the
  destination.
\<close>

definition rename :: "bool \<Rightarrow> path \<Rightarrow> path \<Rightarrow> filesystem \<Rightarrow> error + filesystem" where
  "rename refused src dst fs =
     (if refused then Inl (filesystem_error os_error)
      else if \<not> exists_path fs src then Inl (filesystem_error no_such_file_or_directory)
      else if src = dst then Inr fs
      else if prefix src dst \<or> \<not> is_directory fs (butlast dst) then Inl (filesystem_error os_error)
      else if exists_path fs dst \<and> is_directory fs src \<noteq> is_directory fs dst
        then Inl (filesystem_error os_error)
      else if list_ex (\<lambda>e. strict_prefix dst (fst e)) fs then Inl (filesystem_error os_error)
      else Inr (map (\<lambda>e. if prefix src (fst e) then (dst @ drop (length src) (fst e), snd e) else e)
                  (filter (\<lambda>e. fst e \<noteq> dst) fs)))"

text \<open>
  \<open>remove_all\<close> returns the number of entries it removed when it completes. When it
  fails it reports a filesystem error, and part of the tree may be gone already. The
  overload that takes an \<open>error_code\<close> has the same effect on the filesystem and stores
  the error instead of throwing it.
\<close>

definition remove_all :: "removal \<Rightarrow> path \<Rightarrow> filesystem \<Rightarrow> nat result" where
  "remove_all how p fs =
     (case how of
        Completes \<Rightarrow> (Inr (length (filter (\<lambda>e. prefix p (fst e)) fs)), remove_all_fs p fs)
      | Fails keep \<Rightarrow> (Inl (filesystem_error os_error), left_behind keep p fs))"

text \<open>
  \<open>out << flowDef\<close>: the characters that reach the file. The stream may stop early, after
  the given number of characters.
\<close>

definition stream_insert :: "nat option \<Rightarrow> string \<Rightarrow> string" where
  "stream_insert stops text = (case stops of None \<Rightarrow> text | Some k \<Rightarrow> take k text)"

text \<open>\<open>directory_iterator\<close>: the entries directly inside a directory.\<close>

definition directory_entries :: "filesystem \<Rightarrow> path \<Rightarrow> path list" where
  "directory_entries fs d =
     filter (\<lambda>p. length p = Suc (length d) \<and> prefix d p) (map fst fs)"

text \<open>
  \<open>path::filename\<close>, \<open>path::extension\<close> and \<open>path::stem\<close>: the extension starts at the
  last period of the file name, unless that period is the first character or the name is
  \<open>.\<close> or \<open>..\<close>; the stem is the rest.
\<close>

definition filename :: "path \<Rightarrow> string" where
  "filename p = (if p = [] then [] else last p)"

definition extension :: "string \<Rightarrow> string" where
  "extension f =
     (if f = ''.'' \<or> f = ''..'' \<or> CHR ''.'' \<notin> set f then []
      else let k = length f - Suc (length (takeWhile (\<lambda>c. c \<noteq> CHR ''.'') (rev f)))
           in if k = 0 then [] else drop k f)"

definition stem :: "string \<Rightarrow> string" where
  "stem f = take (length f - length (extension f)) f"

subsection \<open>Path helpers\<close>

text \<open>
  Modelled from the spec: the helpers of \<open>PathUtils.hpp\<close>, which is not among the
  sources. A flow directory is named by the identifier followed by the suffix
  \<open>.mxl-flow\<close>; it holds \<open>descriptor.json\<close>, \<open>access\<close>, \<open>data\<close>, for a discrete flow the
  directory \<open>grains\<close> with one file per slot named by the slot index, and for a continuous
  flow the file \<open>channels\<close>.
\<close>

definition FLOW_DIRECTORY_NAME_SUFFIX :: string where
  "FLOW_DIRECTORY_NAME_SUFFIX = ''.mxl-flow''"

definition makeFlowDirectoryName :: "path \<Rightarrow> string \<Rightarrow> path" where
  "makeFlowDirectoryName base uuidString = base @ [uuidString @ FLOW_DIRECTORY_NAME_SUFFIX]"

definition makeFlowDescriptorFilePath :: "path \<Rightarrow> path" where
  "makeFlowDescriptorFilePath flowDir = flowDir @ [''descriptor.json'']"

definition makeFlowAccessFilePath :: "path \<Rightarrow> path" where
  "makeFlowAccessFilePath flowDir = flowDir @ [''access'']"

definition makeFlowDataFilePath :: "path \<Rightarrow> path" where
  "makeFlowDataFilePath flowDir = flowDir @ [''data'']"

definition makeGrainDirectoryName :: "path \<Rightarrow> path" where
  "makeGrainDirectoryName flowDir = flowDir @ [''grains'']"

definition makeChannelDataFilePath :: "path \<Rightarrow> path" where
  "makeChannelDataFilePath flowDir = flowDir @ [''channels'']"

fun decimal :: "nat \<Rightarrow> string" where
  "decimal n =
     (if n < 10 then [char_of (48 + n)]
      else decimal (n div 10) @ [char_of (48 + n mod 10)])"

definition makeGrainDataFilePath :: "path \<Rightarrow> nat \<Rightarrow> path" where
  "makeGrainDataFilePath grainDir i = grainDir @ [decimal i]"

subsection \<open>Parameters of a call\<close>

text \<open>
  The parts that come from outside \<open>FlowManager.cpp\<close>: the conversions of the UUID
  library, and the data-format constant and predicates of \<open>mxl/flow.h\<close>, which is not
  among the sources.
\<close>

record Platform =
  uuid_to_string :: "uuid \<Rightarrow> string"
  uuid_from_string :: "string \<Rightarrow> uuid option"
  MXL_DATA_FORMAT_UNSPECIFIED :: int
  mxlIsSupportedDataFormat :: "int \<Rightarrow> bool"
  mxlIsDiscreteDataFormat :: "int \<Rightarrow> bool"
  mxlIsContinuousDataFormat :: "int \<Rightarrow> bool"

text \<open>
  What the operating system does during one call: the characters \<open>mkdtemp\<close> puts in
  place of the template's \<open>XXXXXXXXXXXXXXXX\<close>, the clock, and for each operation that
  can fail whether and how it does: the error number of a failing \<open>mkdtemp\<close>, where the
  write of the descriptor stops, how the \<open>remove_all\<close> of the creation handler and the one
  of \<open>deleteFlow\<close> end.
\<close>

record Environment =
  tmp_suffix :: string
  tai_clock :: Timepoint
  mkdtemp_refused :: "errc option"
  descriptor_refused :: bool
  descriptor_write_stops :: "nat option"
  access_refused :: bool
  flow_data_refused :: bool
  grain_directory_refused :: bool
  grain_refused :: "nat \<Rightarrow> bool"
  channel_buffers_refused :: bool
  permissions_refused :: bool
  rename_refused :: bool
  cleanup_removal :: removal
  delete_removal :: removal
  iteration_refused :: bool

subsection \<open>Shared-memory segments\<close>

text \<open>
  Modelled from the spec: the constructors of \<open>DiscreteFlowData\<close> and
  \<open>ContinuousFlowData\<close> in mode \<open>CREATE_READ_WRITE\<close>, \<open>emplaceGrain\<close> and
  \<open>openChannelBuffers\<close> live in \<open>FlowData\<close> and \<open>SharedMemory\<close>, which are not among the
  sources. Each creates one file-backed segment at the given path and fails when the file
  already exists or the operating system refuses.
\<close>

definition create_segment :: "bool \<Rightarrow> path \<Rightarrow> content \<Rightarrow> filesystem \<Rightarrow> filesystem option" where
  "create_segment refused p c fs =
     (if refused \<or> \<not> is_directory fs (butlast p) \<or> exists_path fs p then None
      else Some (store p (RegularFile c) fs))"

subsection \<open>The flow manager\<close>

definition andThen :: "'a result \<Rightarrow> ('a \<Rightarrow> filesystem \<Rightarrow> 'b result) \<Rightarrow> 'b result" where
  "andThen m f = (case m of (Inl e, fs) \<Rightarrow> (Inl e, fs) | (Inr a, fs) \<Rightarrow> f a fs)"

definition createTemporaryFlowDirectory :: "Environment \<Rightarrow> path \<Rightarrow> filesystem \<Rightarrow> path result" where
  "createTemporaryFlowDirectory env base fs =
     (let pathBuffer = base @ [''.mxl-tmp-'' @ tmp_suffix env] in
      case mkdtemp (mkdtemp_refused env) pathBuffer fs of
        Inl e \<Rightarrow> (Inl (filesystem_error e), fs)
      | Inr fs' \<Rightarrow> (Inr pathBuffer, fs'))"

definition publishFlowDirectory :: "Environment \<Rightarrow> path \<Rightarrow> path \<Rightarrow> filesystem \<Rightarrow> unit result" where
  "publishFlowDirectory env source dest fs =
     (case permissions (permissions_refused env) source fs of
        Inl e \<Rightarrow> (Inl e, fs)
      | Inr fs1 \<Rightarrow>
          (case rename (rename_refused env) source dest fs1 of
             Inl e \<Rightarrow> (Inl e, fs1)
           | Inr fs2 \<Rightarrow> (Inr (), fs2)))"

definition sanitizeFlowFormat :: "Platform \<Rightarrow> int \<Rightarrow> int" where
  "sanitizeFlowFormat pf fmt =
     (if mxlIsSupportedDataFormat pf fmt then fmt else MXL_DATA_FORMAT_UNSPECIFIED pf)"

text \<open>
  \<open>writeFlowDescriptor\<close> tests the stream once, after opening the file. The state of
  the stream after \<open>out << flowDef\<close> is not tested: a write that stops early is not an
  error.
\<close>

definition writeFlowDescriptor :: "Environment \<Rightarrow> path \<Rightarrow> string \<Rightarrow> filesystem \<Rightarrow> unit result" where
  "writeFlowDescriptor env flowDir flowDef fs =
     (let flowJsonFile = makeFlowDescriptorFilePath flowDir in
      case ofstream_open (descriptor_refused env) flowJsonFile fs of
        Some fs' \<Rightarrow>
          (Inr (),
           store flowJsonFile
             (RegularFile (Text (stream_insert (descriptor_write_stops env) flowDef))) fs')
      | None \<Rightarrow> (Inl (filesystem_error io_error), fs))"

definition initCommonFlowInfo :: "Environment \<Rightarrow> uuid \<Rightarrow> int \<Rightarrow> CommonFlowInfo" where
  "initCommonFlowInfo env flowId fmt =
     (let now = mxlGetTime (tai_clock env) in
      \<lparr>flow_id = flowId, lastWriteTime = now, lastReadTime = now, format = fmt\<rparr>)"

definition blankFlowInfo :: FlowInfo where
  "blankFlowInfo =
     \<lparr>version = 0,
      common = \<lparr>flow_id = 0, lastWriteTime = 0, lastReadTime = 0, format = 0\<rparr>,
      shape = Unset\<rparr>"

text \<open>The steps inside the \<open>try\<close> block of \<open>createDiscreteFlow\<close>, in order.\<close>

definition createAccessFile :: "Environment \<Rightarrow> path \<Rightarrow> filesystem \<Rightarrow> unit result" where
  "createAccessFile env tempDirectory fs =
     (let readAccessFile = makeFlowAccessFilePath tempDirectory in
      case ofstream_open (access_refused env) readAccessFile fs of
        None \<Rightarrow> (Inl (filesystem_error file_exists), fs)
      | Some fs' \<Rightarrow> (Inr (), fs'))"

definition createFlowSegment :: "Environment \<Rightarrow> path \<Rightarrow> filesystem \<Rightarrow> unit result" where
  "createFlowSegment env tempDirectory fs =
     (case create_segment (flow_data_refused env) (makeFlowDataFilePath tempDirectory)
             (FlowSegment blankFlowInfo) fs of
        None \<Rightarrow> (Inl other_exception, fs)
      | Some fs' \<Rightarrow> (Inr (), fs'))"

definition createGrainDirectory :: "Environment \<Rightarrow> path \<Rightarrow> filesystem \<Rightarrow> unit result" where
  "createGrainDirectory env grainDir fs =
     (case create_directory (grain_directory_refused env) grainDir fs of
        Inl e \<Rightarrow> (Inl e, fs)
      | Inr (created, fs') \<Rightarrow>
          if \<not> created then (Inl (filesystem_error io_error), fs')
          else (Inr (), fs'))"

fun createGrains :: "Environment \<Rightarrow> path \<Rightarrow> nat \<Rightarrow> nat list \<Rightarrow> filesystem \<Rightarrow> GrainInfo list result" where
  "createGrains env grainDir grainPayloadSize [] fs = (Inr [], fs)"
| "createGrains env grainDir grainPayloadSize (i # rest) fs =
     (let grainPath = makeGrainDataFilePath grainDir i;
          gInfo = \<lparr>grainSize = grainPayloadSize, grain_version = 1, deviceIndex = - 1\<rparr>
      in case create_segment (grain_refused env i) grainPath
                (GrainSegment \<lparr>grainSize = 0, grain_version = 0, deviceIndex = 0\<rparr>) fs of
           None \<Rightarrow> (Inl other_exception, fs)
         | Some fs' \<Rightarrow>
             andThen
               (createGrains env grainDir grainPayloadSize rest
                  (store grainPath (RegularFile (GrainSegment gInfo)) fs'))
               (\<lambda>grains fs''. (Inr (gInfo # grains), fs'')))"

definition publishDiscrete :: "Environment \<Rightarrow> path \<Rightarrow> path \<Rightarrow> filesystem \<Rightarrow> unit result" where
  "publishDiscrete env tempDirectory finalDir fs =
     (case publishFlowDirectory env tempDirectory finalDir fs of
        (Inl e, fs') \<Rightarrow> (Inl (filesystem_error io_error), fs')
      | (Inr u, fs') \<Rightarrow> (Inr u, fs'))"

definition createDiscreteFlow_try ::
  "Environment \<Rightarrow> path \<Rightarrow> path \<Rightarrow> uuid \<Rightarrow> string \<Rightarrow> string \<Rightarrow> int \<Rightarrow> nat \<Rightarrow> Rational \<Rightarrow> nat
     \<Rightarrow> filesystem \<Rightarrow> FlowData result" where
  "createDiscreteFlow_try env mxlDomain tempDirectory flowId uuidString flowDef flowFormat
       grainCount grainRate grainPayloadSize fs =
     andThen (writeFlowDescriptor env tempDirectory flowDef fs) (\<lambda>_ fs1.
     andThen (createAccessFile env tempDirectory fs1) (\<lambda>_ fs2.
     andThen (createFlowSegment env tempDirectory fs2) (\<lambda>_ fs3.
       let info = \<lparr>version = 1,
                   common = initCommonFlowInfo env flowId flowFormat,
                   shape = DiscreteFlowInfo grainRate grainCount 0\<rparr>;
           fs4 = store (makeFlowDataFilePath tempDirectory) (RegularFile (FlowSegment info)) fs3
       in
     andThen (createGrainDirectory env (makeGrainDirectoryName tempDirectory) fs4) (\<lambda>_ fs5.
     andThen (createGrains env (makeGrainDirectoryName tempDirectory) grainPayloadSize
                [0..<grainCount] fs5) (\<lambda>grains fs6.
     andThen (publishDiscrete env tempDirectory (makeFlowDirectoryName mxlDomain uuidString) fs6)
       (\<lambda>_ fs7. (Inr (DiscreteFlowData info grains), fs7)))))))"

text \<open>
  \<open>createDiscreteFlow\<close>: the format check, the staging directory, the \<open>try\<close> block, and
  the handler \<open>catch (...)\<close>, which calls \<open>remove_all(tempDirectory, ec)\<close> and throws the
  exception again. The handler never reads \<open>ec\<close>: when that \<open>remove_all\<close> fails, what it
  left of the staging directory stays.
\<close>

definition createDiscreteFlow ::
  "Platform \<Rightarrow> Environment \<Rightarrow> path \<Rightarrow> uuid \<Rightarrow> string \<Rightarrow> int \<Rightarrow> nat \<Rightarrow> Rational \<Rightarrow> nat
     \<Rightarrow> filesystem \<Rightarrow> FlowData result" where
  "createDiscreteFlow pf env mxlDomain flowId flowDef flowFormat grainCount grainRate grainPayloadSize fs =
     (let uuidString = uuid_to_string pf flowId;
          fmt = sanitizeFlowFormat pf flowFormat
      in if \<not> mxlIsDiscreteDataFormat pf fmt then (Inl runtime_error, fs)
         else case createTemporaryFlowDirectory env mxlDomain fs of
           (Inl e, fs0) \<Rightarrow> (Inl e, fs0)
         | (Inr tempDirectory, fs0) \<Rightarrow>
             (case createDiscreteFlow_try env mxlDomain tempDirectory flowId uuidString flowDef
                     fmt grainCount grainRate grainPayloadSize fs0 of
                (Inl e, fs') \<Rightarrow>
                  (Inl e, snd (remove_all (cleanup_removal env) tempDirectory fs'))
              | (Inr flowData, fs') \<Rightarrow> (Inr flowData, fs')))"

text \<open>The steps inside the \<open>try\<close> block of \<open>createContinuousFlow\<close>.\<close>

definition createContinuousSegment :: "Environment \<Rightarrow> path \<Rightarrow> filesystem \<Rightarrow> unit result" where
  "createContinuousSegment env tempDirectory fs =
     (case createFlowSegment env tempDirectory fs of
        (Inl e, fs') \<Rightarrow> (Inl runtime_error, fs')
      | (Inr u, fs') \<Rightarrow> (Inr u, fs'))"

definition openChannelBuffers :: "Environment \<Rightarrow> path \<Rightarrow> nat \<Rightarrow> filesystem \<Rightarrow> unit result" where
  "openChannelBuffers env tempDirectory sampleWordSize fs =
     (case create_segment (channel_buffers_refused env) (makeChannelDataFilePath tempDirectory)
             (ChannelSegment sampleWordSize) fs of
        None \<Rightarrow> (Inl runtime_error, fs)
      | Some fs' \<Rightarrow> (Inr (), fs'))"

definition publishContinuous :: "Environment \<Rightarrow> path \<Rightarrow> path \<Rightarrow> filesystem \<Rightarrow> unit result" where
  "publishContinuous env tempDirectory finalDir fs =
     (case publishFlowDirectory env tempDirectory finalDir fs of
        (Inl e, fs') \<Rightarrow> (Inl runtime_error, fs')
      | (Inr u, fs') \<Rightarrow> (Inr u, fs'))"

definition createContinuousFlow_try ::
  "Environment \<Rightarrow> path \<Rightarrow> path \<Rightarrow> uuid \<Rightarrow> string \<Rightarrow> string \<Rightarrow> int \<Rightarrow> Rational \<Rightarrow> nat \<Rightarrow> nat \<Rightarrow> nat
     \<Rightarrow> filesystem \<Rightarrow> FlowData result" where
  "createContinuousFlow_try env mxlDomain tempDirectory flowId uuidString flowDef flowFormat
       sampleRate channelCount sampleWordSize bufferLength fs =
     andThen (writeFlowDescriptor env tempDirectory flowDef fs) (\<lambda>_ fs1.
     andThen (createContinuousSegment env tempDirectory fs1) (\<lambda>_ fs2.
       let info = \<lparr>version = 1,
                   common = initCommonFlowInfo env flowId flowFormat,
                   shape = ContinuousFlowInfo sampleRate channelCount bufferLength\<rparr>;
           fs3 = store (makeFlowDataFilePath tempDirectory) (RegularFile (FlowSegment info)) fs2
       in
     andThen (openChannelBuffers env tempDirectory sampleWordSize fs3) (\<lambda>_ fs4.
     andThen (publishContinuous env tempDirectory (makeFlowDirectoryName mxlDomain uuidString) fs4)
       (\<lambda>_ fs5. (Inr (ContinuousFlowData info), fs5)))))"

definition createContinuousFlow ::
  "Platform \<Rightarrow> Environment \<Rightarrow> path \<Rightarrow> uuid \<Rightarrow> string \<Rightarrow> int \<Rightarrow> Rational \<Rightarrow> nat \<Rightarrow> nat \<Rightarrow> nat
     \<Rightarrow> filesystem \<Rightarrow> FlowData result" where
  "createContinuousFlow pf env mxlDomain flowId flowDef flowFormat sampleRate channelCount sampleWordSize
       bufferLength fs =
     (let uuidString = uuid_to_string pf flowId;
          fmt = sanitizeFlowFormat pf flowFormat
      in if \<not> mxlIsContinuousDataFormat pf fmt then (Inl runtime_error, fs)
         else case createTemporaryFlowDirectory env mxlDomain fs of
           (Inl e, fs0) \<Rightarrow> (Inl e, fs0)
         | (Inr tempDirectory, fs0) \<Rightarrow>
             (case createContinuousFlow_try env mxlDomain tempDirectory flowId uuidString flowDef
                     fmt sampleRate channelCount sampleWordSize bufferLength fs0 of
                (Inl e, fs') \<Rightarrow>
                  (Inl e, snd (remove_all (cleanup_removal env) tempDirectory fs'))
              | (Inr flowData, fs') \<Rightarrow> (Inr flowData, fs')))"

text \<open>
  \<open>deleteFlow(uuid)\<close>: both \<open>catch\<close> clauses turn a failure of \<open>remove_all\<close> into the
  value \<open>false\<close>.
\<close>

definition deleteFlow :: "Platform \<Rightarrow> Environment \<Rightarrow> path \<Rightarrow> uuid \<Rightarrow> filesystem \<Rightarrow> bool result" where
  "deleteFlow pf env mxlDomain flowId fs =
     (let uuidStr = uuid_to_string pf flowId;
          flowPath = makeFlowDirectoryName mxlDomain uuidStr
      in case remove_all (delete_removal env) flowPath fs of
           (Inr removed, fs') \<Rightarrow> if removed = 0 then (Inr False, fs') else (Inr True, fs')
         | (Inl e, fs') \<Rightarrow> (Inr False, fs'))"

text \<open>\<open>listFlows\<close>: the loop over the directory entries, then the function.\<close>

fun collectFlowIds :: "Platform \<Rightarrow> filesystem \<Rightarrow> path list \<Rightarrow> uuid list \<Rightarrow> uuid list" where
  "collectFlowIds pf fs [] flowIds = flowIds"
| "collectFlowIds pf fs (entry # rest) flowIds =
     (if is_directory fs entry \<and> extension (filename entry) = FLOW_DIRECTORY_NAME_SUFFIX
      then (case uuid_from_string pf (stem (filename entry)) of
              Some uid \<Rightarrow> collectFlowIds pf fs rest (flowIds @ [uid])
            | None \<Rightarrow> collectFlowIds pf fs rest flowIds)
      else collectFlowIds pf fs rest flowIds)"

definition listFlows :: "Platform \<Rightarrow> Environment \<Rightarrow> path \<Rightarrow> filesystem \<Rightarrow> error + uuid list" where
  "listFlows pf env mxlDomain fs =
     (if exists_path fs mxlDomain \<and> is_directory fs mxlDomain then
        (if iteration_refused env then Inl (filesystem_error os_error)
         else Inr (collectFlowIds pf fs (directory_entries fs mxlDomain) []))
      else Inl (filesystem_error no_such_file_or_directory))"

subsection \<open>What a step leaves alone\<close>

text \<open>
  \<open>kept t d fs fs'\<close>: going from \<open>fs\<close> to \<open>fs'\<close> changed nothing outside the subtree
  of \<open>t\<close> and did not change the entry of the path \<open>d\<close>.
\<close>

definition kept :: "path \<Rightarrow> path \<Rightarrow> filesystem \<Rightarrow> filesystem \<Rightarrow> bool" where
  "kept t d fs fs' \<longleftrightarrow> remove_all_fs t fs' = remove_all_fs t fs \<and> map_of fs' d = map_of fs d"


subsection \<open>A small domain\<close>

text \<open>
  A platform with two identifiers, video (1) as the discrete and audio (2) as the
  continuous format, an operating system that refuses nothing, and a domain \<open>shm\<close>
  holding one flow directory with a file in it, one directory with an unparsable stem
  and one file.
\<close>

definition example_platform :: Platform where
  "example_platform =
     \<lparr>uuid_to_string = (\<lambda>u. if u = 1 then ''0001'' else ''0002''),
      uuid_from_string = (\<lambda>s. if s = ''0001'' then Some 1 else if s = ''0002'' then Some 2 else None),
      MXL_DATA_FORMAT_UNSPECIFIED = 0,
      mxlIsSupportedDataFormat = (\<lambda>f. f = 1 \<or> f = 2),
      mxlIsDiscreteDataFormat = (\<lambda>f. f = 1),
      mxlIsContinuousDataFormat = (\<lambda>f. f = 2)\<rparr>"

definition example_environment :: Environment where
  "example_environment =
     \<lparr>tmp_suffix = ''Q'', tai_clock = \<lparr>tp_ok = True, tp_value = 5\<rparr>,
      mkdtemp_refused = None, descriptor_refused = False, descriptor_write_stops = None,
      access_refused = False,
      flow_data_refused = False, grain_directory_refused = False,
      grain_refused = (\<lambda>i. False), channel_buffers_refused = False,
      permissions_refused = False, rename_refused = False, cleanup_removal = Completes,
      delete_removal = Completes,
      iteration_refused = False\<rparr>"

definition example_filesystem :: filesystem where
  "example_filesystem =
     [([], Directory), ([''shm''], Directory),
      ([''shm'', ''0002.mxl-flow''], Directory),
      ([''shm'', ''0002.mxl-flow'', ''data''], RegularFile (Text ''h'')),
      ([''shm'', ''junk.mxl-flow''], Directory),
      ([''shm'', ''note.txt''], RegularFile (Text ''x''))]"

section \<open>Properties of the time conversions\<close>

subsection \<open>Reading the machine words as integers\<close>

lemma sint128_small:
  fixes x :: i128
  assumes "uint x < 2 ^ 127"
  shows "sint x = uint x"
proof -
  have "(0::int) \<le> uint x" by simp
  moreover have "- (2 ^ 127) \<le> (0::int)" by simp
  ultimately have "- (2 ^ 127) \<le> uint x" by (rule order_trans [rotated])
  then have "signed_take_bit 127 (uint x) = uint x"
    using assms by (intro signed_take_bit_int_eq_self)
  then show ?thesis by (simp add: sint_uint)
qed

lemma sint64_small:
  fixes x :: i64
  assumes "uint x < 2 ^ 63"
  shows "sint x = uint x"
proof -
  have "(0::int) \<le> uint x" by simp
  moreover have "- (2 ^ 63) \<le> (0::int)" by simp
  ultimately have "- (2 ^ 63) \<le> uint x" by (rule order_trans [rotated])
  then have "signed_take_bit 63 (uint x) = uint x"
    using assms by (intro signed_take_bit_int_eq_self)
  then show ?thesis by (simp add: sint_uint)
qed

lemma uint_scast_64_128:
  fixes y :: i64
  assumes "uint y < 2 ^ 63"
  shows "uint (scast y :: i128) = uint y"
proof -
  have "(scast y :: i128) = word_of_int (sint y)" by (rule scast_eq)
  then have "(scast y :: i128) = word_of_int (uint y)"
    by (simp only: sint64_small [OF assms])
  then have "(scast y :: i128) = ucast y" by simp
  then show ?thesis by (simp add: uint_up_ucast is_up)
qed

lemma sdiv_nonneg_int:
  fixes a b :: int
  assumes "0 \<le> a" and "0 \<le> b"
  shows "a sdiv b = a div b"
  using assms by (cases "a = 0"; cases "b = 0") (simp_all add: signed_divide_int_def)

lemma sdiv128_nonneg:
  fixes a b :: i128
  assumes "uint a < 2 ^ 127" and "uint b < 2 ^ 127"
  shows "uint (sdiv128 a b) = uint a div uint b"
proof -
  have sa: "sint a = uint a" and sb: "sint b = uint b"
    using assms by (simp_all only: sint128_small)
  have q: "uint a sdiv uint b = uint a div uint b"
    by (rule sdiv_nonneg_int) simp_all
  have "uint a div uint b \<le> uint a"
  proof (cases "uint a = 0")
    case True
    then show ?thesis by simp
  next
    case False
    then have "0 < uint a" using uint_ge_0 [of a] by linarith
    then show ?thesis by (rule int_div_le_self)
  qed
  then have "uint a div uint b < 2 ^ 128"
    using uint_lt2p [of a] by simp
  moreover have "0 \<le> uint a div uint b" by (simp add: pos_imp_zdiv_nonneg_iff div_int_pos_iff)
  ultimately have "(uint a div uint b) mod 2 ^ 128 = uint a div uint b"
    by (rule_tac mod_pos_pos_trivial)
  then show ?thesis
    by (simp only: sdiv128_def sa sb q uint_word_of_int) simp
qed

lemma uint_ucast_64_128: "uint (ucast (w :: u64) :: i128) = uint w"
  by (simp add: uint_up_ucast is_up)

lemma uint_ucast_32_128: "uint (ucast (w :: u32) :: i128) = uint w"
  by (simp add: uint_up_ucast is_up)

lemma uint_ucast_32_64: "uint (ucast (w :: u32) :: i64) = uint w"
  by (simp add: uint_up_ucast is_up)

lemma uint_ucast_128_64:
  fixes v :: i128
  assumes "uint v < 2 ^ 64"
  shows "uint (ucast v :: u64) = uint v"
  using assms by (simp add: unsigned_ucast_eq take_bit_int_eq_self)

lemma uint_mult128:
  fixes a b :: i128
  assumes "uint a * uint b < 2 ^ 128"
  shows "uint (a * b) = uint a * uint b"
  using assms by (simp add: uint_word_ariths)

lemma uint_mult64:
  fixes a b :: i64
  assumes "uint a * uint b < 2 ^ 64"
  shows "uint (a * b) = uint a * uint b"
  using assms by (simp add: uint_word_ariths)

lemma uint_add128:
  fixes a b :: i128
  assumes "uint a + uint b < 2 ^ 128"
  shows "uint (a + b) = uint a + uint b"
  using assms by (simp add: uint_word_ariths)

lemma uint_sub128:
  fixes a b :: i128
  assumes "uint b \<le> uint a"
  shows "uint (a - b) = uint a - uint b"
  using assms by (simp add: uint_sub_lem [THEN iffD1])

lemma isValidEditRate_iff:
  "isValidEditRate (Some r) \<longleftrightarrow>
     1 \<le> uint (numerator r) \<and> uint (numerator r) \<le> 1000000000 \<and>
     1 \<le> uint (denominator r) \<and> uint (denominator r) \<le> 1000000000"
  unfolding isValidEditRate_def MAX_REASONABLE_NUMERATOR_def MAX_REASONABLE_DENOMINATOR_def
    MIN_REASONABLE_RATE_COMPONENT_def
  by (auto simp: word_less_alt word_le_def uint_0_iff [symmetric] simp del: uint_0_iff)

lemma isValidTimestamp_iff:
  "isValidTimestamp t \<longleftrightarrow> uint t \<le> 9223372036854775807"
  unfolding isValidTimestamp_def MAX_REASONABLE_TIMESTAMP_def MXL_UNDEFINED_INDEX_def
  by (auto simp: word_less_alt word_le_def)

lemma isValidIndex_iff:
  "isValidIndex t \<longleftrightarrow> uint t \<le> 9223372036854775807"
  unfolding isValidIndex_def MAX_REASONABLE_TIMESTAMP_def MXL_UNDEFINED_INDEX_def
  by (auto simp: word_less_alt word_le_def)

lemma safecast_small:
  fixes v :: i128
  assumes "uint v \<le> 9223372036854775807"
  shows "uint (safecast128ToUint64 v) = uint v"
proof -
  have lt: "uint v < 2 ^ 127" using assms by simp
  have s: "sint v = uint v" using lt by (rule sint128_small)
  have u: "uint (ucast v :: u64) = uint v"
    using assms by (intro uint_ucast_128_64) simp
  show ?thesis
    unfolding safecast128ToUint64_def UINT64_MAX_i128_def MAX_REASONABLE_TIMESTAMP_def
    using assms by (simp add: s u word_less_alt)
qed

lemma safecast_large:
  fixes v :: i128
  assumes "9223372036854775807 < uint v" and "uint v < 2 ^ 127"
  shows "safecast128ToUint64 v = MXL_UNDEFINED_INDEX"
proof -
  have s: "sint v = uint v" using assms(2) by (rule sint128_small)
  show ?thesis
  proof (cases "uint v \<le> 18446744073709551615")
    case True
    then have u: "uint (ucast v :: u64) = uint v"
      by (intro uint_ucast_128_64) simp
    show ?thesis
      unfolding safecast128ToUint64_def UINT64_MAX_i128_def MAX_REASONABLE_TIMESTAMP_def
      using assms True by (simp add: s u word_less_alt)
  next
    case False
    then show ?thesis
      unfolding safecast128ToUint64_def UINT64_MAX_i128_def MAX_REASONABLE_TIMESTAMP_def
      by (simp add: s)
  qed
qed


lemma div_le_from_bound:
  fixes a b t :: int
  assumes "a < (t + 1) * b" "0 < b"
  shows "a div b \<le> t"
proof -
  have "(a div b) * b + a mod b = a" by (rule div_mult_mod_eq)
  moreover have "0 \<le> a mod b" using assms(2) by (rule pos_mod_sign)
  ultimately have "(a div b) * b < (t + 1) * b" using assms(1) by linarith
  then have "a div b < t + 1" using assms(2) by (simp only: mult_less_cancel_right_pos)
  then show ?thesis by simp
qed

lemma roundtrip_arith:
  fixes i n d :: int
  assumes "0 \<le> i" "1 \<le> n" "n \<le> 1000000000" "1 \<le> d"
  shows "(((i * d * 1000000000 + n div 2) div n) * n + 500000000 * d) div (1000000000 * d) = i"
proof -
  define A where "A = i * d * 1000000000 + n div 2"
  define q where "q = A div n"
  define m where "m = A mod n"
  have npos: "0 < n" using assms by simp
  have qn: "q * n = A - m" unfolding q_def m_def by (simp add: algebra_simps minus_mod_eq_mult_div)
  have m0: "0 \<le> m" unfolding m_def using npos by (rule pos_mod_sign)
  have m1: "m < n" unfolding m_def using npos by (rule pos_mod_bound)
  have half: "n div 2 \<le> 500000000" "n - n div 2 \<le> 500000000" using assms by linarith+
  have d5: "500000000 \<le> 500000000 * d" using assms by simp
  define rr where "rr = n div 2 - m + 500000000 * d"
  have lo: "0 \<le> rr" unfolding rr_def using m1 half d5 by linarith
  have hi: "rr < 1000000000 * d"
  proof (cases "n div 2 = 500000000 * d")
    case False
    then have "n div 2 < 500000000 * d" using half d5 by linarith
    then show ?thesis unfolding rr_def using m0 by linarith
  next
    case True
    then have "500000000 * d \<le> 500000000" using half by simp
    then have d1: "d = 1" using assms by simp
    then have n1: "n = 1000000000" using True assms by linarith
    have "m = (i * 1000000000 + 500000000) mod 1000000000"
      unfolding m_def A_def by (simp add: d1 n1)
    also have "\<dots> = 500000000" by simp
    finally show ?thesis unfolding rr_def using d1 n1 by simp
  qed
  have "q * n + 500000000 * d = (1000000000 * d) * i + rr"
    unfolding rr_def qn A_def by (simp add: algebra_simps)
  then have "(q * n + 500000000 * d) div (1000000000 * d) = i"
    using lo hi by (rule int_div_pos_eq)
  then show ?thesis by (simp add: q_def A_def)
qed
lemma ts_quotient_le:
  fixes t n d :: int
  assumes "0 \<le> t" "n \<le> 1000000000" "1 \<le> d"
  shows "(t * n + 500000000 * d) div (1000000000 * d) \<le> t"
proof -
  have "t * n \<le> t * 1000000000" using assms by (intro mult_left_mono) simp_all
  also have "t * 1000000000 \<le> t * 1000000000 * d"
    using assms mult_left_mono [of 1 d "t * 1000000000"] by simp
  finally have "t * n + 500000000 * d < (t + 1) * (1000000000 * d)"
    using assms by (simp add: algebra_simps)
  moreover have "0 < 1000000000 * d" using assms by simp
  ultimately show ?thesis by (rule div_le_from_bound)
qed

lemma mxlTimestampToIndex_exact:
  assumes v: "isValidEditRate (Some r)" and t: "isValidTimestamp ts"
  shows "uint (mxlTimestampToIndex (Some r) ts) =
           (uint ts * uint (numerator r) + 500000000 * uint (denominator r))
             div (1000000000 * uint (denominator r))"
proof -
  define n where "n = uint (numerator r)"
  define d where "d = uint (denominator r)"
  define tt where "tt = uint ts"
  define num :: i128 where "num = ucast ts * ucast (numerator r)"
  define rounding :: i128 where "rounding = scast ((500000000 :: i64) * ucast (denominator r))"
  define den :: i128 where "den = scast ((1000000000 :: i64) * ucast (denominator r))"
  have nb: "1 \<le> n" "n \<le> 1000000000" and db: "1 \<le> d" "d \<le> 1000000000"
    using v by (simp_all add: isValidEditRate_iff n_def d_def)
  have tb: "0 \<le> tt" "tt \<le> 9223372036854775807"
    using t by (simp_all add: isValidTimestamp_iff tt_def)
  have tn: "tt * n \<le> 9223372036854775807 * 1000000000"
    using tb nb by (intro mult_mono) simp_all
  have tn0: "0 \<le> tt * n" using tb nb by simp
  have u_num: "uint num = tt * n"
    unfolding num_def using tn
    by (subst uint_mult128) (simp_all add: uint_ucast_64_128 uint_ucast_32_128 tt_def n_def)
  have r64: "uint ((500000000 :: i64) * ucast (denominator r)) = 500000000 * d"
    using db by (subst uint_mult64) (simp_all add: uint_ucast_32_64 d_def)
  have d64: "uint ((1000000000 :: i64) * ucast (denominator r)) = 1000000000 * d"
    using db by (subst uint_mult64) (simp_all add: uint_ucast_32_64 d_def)
  have u_rnd: "uint rounding = 500000000 * d"
    unfolding rounding_def using db r64 by (subst uint_scast_64_128) simp_all
  have u_den: "uint den = 1000000000 * d"
    unfolding den_def using db d64 by (subst uint_scast_64_128) simp_all
  have s_num: "sint num = tt * n" using tn u_num by (subst sint128_small) simp_all
  have s_rnd: "sint rounding = 500000000 * d" using db u_rnd by (subst sint128_small) simp_all
  have s_den: "sint den = 1000000000 * d" using db u_den by (subst sint128_small) simp_all
  have u_max: "uint (INT128_MAX - rounding) = 170141183460469231731687303715884105727 - 500000000 * d"
    using db u_rnd by (subst uint_sub128) (simp_all add: INT128_MAX_def)
  have s_max: "sint (INT128_MAX - rounding) = 170141183460469231731687303715884105727 - 500000000 * d"
    using db u_max by (subst sint128_small) simp_all
  have u_sum: "uint (num + rounding) = tt * n + 500000000 * d"
    using tn db u_num u_rnd by (subst uint_add128) simp_all
  define q where "q = (tt * n + 500000000 * d) div (1000000000 * d)"
  have u_q: "uint (sdiv128 (num + rounding) den) = q"
    unfolding q_def using tn db u_sum u_den by (subst sdiv128_nonneg) simp_all
  have "q \<le> tt" unfolding q_def using tb nb db by (intro ts_quotient_le) simp_all
  then have qb: "q \<le> 9223372036854775807" using tb by simp
  have "uint (safecast128ToUint64 (sdiv128 (num + rounding) den)) = q"
    using qb u_q by (subst safecast_small) simp_all
  moreover have "mxlTimestampToIndex (Some r) ts = safecast128ToUint64 (sdiv128 (num + rounding) den)"
    unfolding mxlTimestampToIndex_def Let_def
    using v t tn tn0 db s_num s_rnd s_den s_max
    by (simp add: num_def [symmetric] rounding_def [symmetric] den_def [symmetric])
  ultimately show ?thesis by (simp add: q_def tt_def n_def d_def)
qed


lemma mxlIndexToTimestamp_exact:
  assumes v: "isValidEditRate (Some r)" and t: "isValidIndex idx"
  shows "mxlIndexToTimestamp (Some r) idx =
           (let q = (uint idx * uint (denominator r) * 1000000000 + uint (numerator r) div 2)
                      div uint (numerator r)
            in if q \<le> 9223372036854775807 then word_of_int q else MXL_UNDEFINED_INDEX)"
proof -
  define n where "n = uint (numerator r)"
  define d where "d = uint (denominator r)"
  define i where "i = uint idx"
  define num :: i128 where "num = ucast idx * ucast (denominator r) * 1000000000"
  define den :: i128 where "den = ucast (numerator r)"
  define rounding :: i128 where "rounding = sdiv128 den 2"
  have nb: "1 \<le> n" "n \<le> 1000000000" and db: "1 \<le> d" "d \<le> 1000000000"
    using v by (simp_all add: isValidEditRate_iff n_def d_def)
  have ib: "0 \<le> i" "i \<le> 9223372036854775807"
    using t by (simp_all add: isValidIndex_iff i_def)
  define p where "p = i * d"
  have "i * d \<le> 9223372036854775807 * 1000000000"
    using ib db by (intro mult_mono) simp_all
  then have id: "p \<le> 9223372036854775807000000000" by (simp add: p_def)
  have id0: "0 \<le> p" using ib db by (simp add: p_def)
  have "uint (ucast idx :: i128) * uint (ucast (denominator r) :: i128) = p"
    by (simp add: uint_ucast_64_128 uint_ucast_32_128 i_def d_def p_def)
  then have u_id: "uint ((ucast idx :: i128) * ucast (denominator r)) = p"
    using id by (subst uint_mult128) simp_all
  have u_num: "uint num = p * 1000000000"
    unfolding num_def using id u_id by (subst uint_mult128) simp_all
  have u_den: "uint den = n" by (simp add: den_def n_def uint_ucast_32_128)
  have u_rnd: "uint rounding = n div 2"
    unfolding rounding_def using nb u_den
    by (subst sdiv128_nonneg) simp_all
  have r_le: "n div 2 \<le> 500000000" "0 \<le> n div 2" using nb by linarith+
  have s_num: "sint num = p * 1000000000" using id u_num by (subst sint128_small) simp_all
  have s_rnd: "sint rounding = n div 2" using r_le u_rnd by (subst sint128_small) simp_all
  have s_den: "sint den = n" using nb u_den by (subst sint128_small) simp_all
  have u_max: "uint (INT128_MAX - rounding) = 170141183460469231731687303715884105727 - n div 2"
    using r_le u_rnd by (subst uint_sub128) (simp_all add: INT128_MAX_def)
  have s_max: "sint (INT128_MAX - rounding) = 170141183460469231731687303715884105727 - n div 2"
    using r_le u_max by (subst sint128_small) simp_all
  have u_sum: "uint (num + rounding) = p * 1000000000 + n div 2"
    using id r_le u_num u_rnd by (subst uint_add128) simp_all
  define q where "q = (p * 1000000000 + n div 2) div n"
  have u_q: "uint (sdiv128 (num + rounding) den) = q"
    unfolding q_def using id r_le nb u_sum u_den by (subst sdiv128_nonneg) simp_all
  have q0: "0 \<le> q" unfolding q_def using id0 r_le nb by (simp add: pos_imp_zdiv_nonneg_iff)
  have "q \<le> p * 1000000000 + n div 2"
    unfolding q_def using id0 r_le nb
    by (cases "p * 1000000000 + n div 2 = 0") (simp_all add: int_div_le_self)
  then have q127: "q < 2 ^ 127" using id r_le by simp
  have call: "mxlIndexToTimestamp (Some r) idx = safecast128ToUint64 (sdiv128 (num + rounding) den)"
    unfolding mxlIndexToTimestamp_def Let_def
    using v t id id0 nb r_le s_num s_rnd s_den s_max
    by (simp add: num_def [symmetric] rounding_def [symmetric] den_def [symmetric])
  show ?thesis
  proof (cases "q \<le> 9223372036854775807")
    case True
    then have "uint (safecast128ToUint64 (sdiv128 (num + rounding) den)) = q"
      using u_q by (subst safecast_small) simp_all
    moreover have "uint (word_of_int q :: u64) = q"
      using True q0 by (simp add: uint_word_of_int)
    ultimately have "safecast128ToUint64 (sdiv128 (num + rounding) den) = word_of_int q"
      by (intro word_uint_eqI) simp
    then show ?thesis using True call by (simp add: q_def p_def i_def n_def d_def Let_def)
  next
    case False
    then have "safecast128ToUint64 (sdiv128 (num + rounding) den) = MXL_UNDEFINED_INDEX"
      using u_q q127 by (intro safecast_large) simp_all
    then show ?thesis using False call by (simp add: q_def p_def i_def n_def d_def Let_def)
  qed
qed

subsection \<open>Claims about the conversions\<close>

lemma safecast_range:
  "safecast128ToUint64 v = MXL_UNDEFINED_INDEX \<or> safecast128ToUint64 v \<le> MAX_REASONABLE_TIMESTAMP"
  unfolding safecast128ToUint64_def by (simp add: not_less)

lemma word_u64_bounds_iff:
  "(x :: u64) \<le> MAX_REASONABLE_TIMESTAMP \<longleftrightarrow> uint x \<le> 9223372036854775807"
  unfolding MAX_REASONABLE_TIMESTAMP_def by (simp add: word_le_def)

text \<open>
  Claim C2. For a rate whose numerator and denominator lie in \<open>[1, 10\<^sup>9]\<close> and a
  timestamp of at most \<open>u64::MAX / 2\<close>, \<open>mxlTimestampToIndex\<close> returns the exact
  integer quotient \<open>(ts * num + den * 5 * 10\<^sup>8) div (den * 10\<^sup>9)\<close>: the index nearest
  to the timestamp. None of the 64-bit or 128-bit intermediates wraps on the way.
\<close>

theorem timestampToIndex_rounds_to_nearest:
  assumes "1 \<le> uint (numerator r)" and "uint (numerator r) \<le> 1000000000"
    and "1 \<le> uint (denominator r)" and "uint (denominator r) \<le> 1000000000"
    and "uint ts \<le> (2 ^ 64 - 1) div 2"
  shows "uint (mxlTimestampToIndex (Some r) ts) =
           (uint ts * uint (numerator r) + uint (denominator r) * 500000000)
             div (uint (denominator r) * 1000000000)"
proof -
  have v: "isValidEditRate (Some r)" using assms by (simp add: isValidEditRate_iff)
  have t: "isValidTimestamp ts" using assms(5) by (simp add: isValidTimestamp_iff)
  show ?thesis using mxlTimestampToIndex_exact [OF v t] by (simp add: mult.commute)
qed

theorem timestampToIndex_rounds_to_nearest_witness:
  "uint (mxlTimestampToIndex (Some \<lparr>numerator = 30000, denominator = 1001\<rparr>) 33366667) = 1"
  using timestampToIndex_rounds_to_nearest
    [of "\<lparr>numerator = 30000, denominator = 1001\<rparr>" 33366667]
  by simp

text \<open>
  Claim C1. For a rate whose numerator and denominator lie in \<open>[1, 10\<^sup>9]\<close> and an index
  of at most \<open>u64::MAX / 2\<close> for which \<open>mxlIndexToTimestamp\<close> returns a defined
  timestamp, converting that timestamp back with \<open>mxlTimestampToIndex\<close> gives the index
  again.
\<close>

theorem index_roundtrip:
  assumes "1 \<le> uint (numerator r)" and "uint (numerator r) \<le> 1000000000"
    and "1 \<le> uint (denominator r)" and "uint (denominator r) \<le> 1000000000"
    and "uint i \<le> (2 ^ 64 - 1) div 2"
    and "mxlIndexToTimestamp (Some r) i \<noteq> MXL_UNDEFINED_INDEX"
  shows "mxlTimestampToIndex (Some r) (mxlIndexToTimestamp (Some r) i) = i"
proof -
  define n where "n = uint (numerator r)"
  define d where "d = uint (denominator r)"
  define q where "q = (uint i * d * 1000000000 + n div 2) div n"
  have v: "isValidEditRate (Some r)" using assms by (simp add: isValidEditRate_iff)
  have t: "isValidIndex i" using assms(5) by (simp add: isValidIndex_iff)
  have nb: "1 \<le> n" "n \<le> 1000000000" "1 \<le> d" using assms by (simp_all add: n_def d_def)
  have ex: "mxlIndexToTimestamp (Some r) i =
      (if q \<le> 9223372036854775807 then word_of_int q else MXL_UNDEFINED_INDEX)"
    using mxlIndexToTimestamp_exact [OF v t] by (simp add: Let_def q_def n_def d_def)
  then have qb: "q \<le> 9223372036854775807" using assms(6) by (auto split: if_splits)
  have q0: "0 \<le> q" unfolding q_def using nb by (simp add: pos_imp_zdiv_nonneg_iff)
  have ts: "mxlIndexToTimestamp (Some r) i = word_of_int q" using ex qb by simp
  have uts: "uint (word_of_int q :: u64) = q" using qb q0 by (simp add: uint_word_of_int)
  have tv: "isValidTimestamp (word_of_int q)" using qb uts by (simp add: isValidTimestamp_iff)
  have "uint (mxlTimestampToIndex (Some r) (word_of_int q)) =
          (q * n + 500000000 * d) div (1000000000 * d)"
    using mxlTimestampToIndex_exact [OF v tv] by (simp add: uts n_def d_def)
  also have "\<dots> = uint i"
    unfolding q_def using nb by (intro roundtrip_arith) simp_all
  finally show ?thesis unfolding ts by (intro word_uint_eqI)
qed

theorem index_roundtrip_witness:
  "mxlIndexToTimestamp (Some \<lparr>numerator = 30000, denominator = 1001\<rparr>) 30000000 = 1001000000000000
   \<and> mxlTimestampToIndex (Some \<lparr>numerator = 30000, denominator = 1001\<rparr>)
        (mxlIndexToTimestamp (Some \<lparr>numerator = 30000, denominator = 1001\<rparr>) 30000000) = 30000000"
proof -
  let ?r = "\<lparr>numerator = 30000, denominator = 1001\<rparr>"
  have v: "isValidEditRate (Some ?r)" by (simp add: isValidEditRate_iff)
  have t: "isValidIndex 30000000" by (simp add: isValidIndex_iff)
  have ts: "mxlIndexToTimestamp (Some ?r) 30000000 = 1001000000000000"
    using mxlIndexToTimestamp_exact [OF v t] by simp
  then have "mxlIndexToTimestamp (Some ?r) 30000000 \<noteq> MXL_UNDEFINED_INDEX"
    by (simp add: MXL_UNDEFINED_INDEX_def)
  then show ?thesis using ts index_roundtrip [of ?r 30000000] by simp
qed

lemma u64_u32_product_bound:
  fixes a :: u64 and b :: u32
  shows "uint a * uint b \<le> 18446744073709551615 * 4294967295"
proof -
  have "uint a \<le> 18446744073709551615" using uint_lt2p [of a] by simp
  moreover have "uint b \<le> 4294967295" using uint_lt2p [of b] by simp
  ultimately show ?thesis by (intro mult_mono) simp_all
qed

lemma timestamp_math_never_overflows: "\<not> timestampMathOverflows r ts"
proof -
  have "uint (denominator r) \<le> 4294967295" using uint_lt2p [of "denominator r"] by simp
  then show ?thesis
    unfolding timestampMathOverflows_def
    using u64_u32_product_bound [of ts "numerator r"] by simp
qed

lemma index_math_never_overflows: "\<not> indexMathOverflows r idx"
proof -
  have "uint (numerator r) \<le> 4294967295" using uint_lt2p [of "numerator r"] by simp
  then have "uint (numerator r) div 2 \<le> 4294967295" by linarith
  then show ?thesis
    unfolding indexMathOverflows_def
    using u64_u32_product_bound [of idx "denominator r"] by simp
qed

lemma invalid_rate_cases:
  assumes "rate = None \<or> (\<exists>r. rate = Some r \<and>
             (numerator r = 0 \<or> denominator r = 0 \<or>
              1000000000 < uint (numerator r) \<or> 1000000000 < uint (denominator r)))"
  shows "\<not> isValidEditRate rate"
  using assms
proof (cases rate)
  case None
  then show ?thesis by (simp add: isValidEditRate_def)
next
  case (Some r)
  then show ?thesis using assms by (auto simp: isValidEditRate_iff)
qed

text \<open>
  Claim C3. \<open>mxlTimestampToIndex\<close>, \<open>mxlIndexToTimestamp\<close> and
  \<open>mxlGetNsUntilIndex\<close> each return the all-ones sentinel \<open>MXL_UNDEFINED_INDEX\<close>
  whenever the rate pointer is null, the numerator or the denominator is zero or above
  \<open>10\<^sup>9\<close>, the timestamp or index argument exceeds \<open>u64::MAX / 2\<close>, or the exact
  intermediate would not fit 128 bits (which, by \<open>timestamp_math_never_overflows\<close> and
  \<open>index_math_never_overflows\<close>, no argument achieves).
\<close>

theorem sentinel_on_invalid_input:
  assumes "rate = None \<or>
           (\<exists>r. rate = Some r \<and>
             (numerator r = 0 \<or> denominator r = 0 \<or>
              1000000000 < uint (numerator r) \<or> 1000000000 < uint (denominator r))) \<or>
           (2 ^ 64 - 1) div 2 < uint x \<or>
           (\<exists>r. rate = Some r \<and> (timestampMathOverflows r x \<or> indexMathOverflows r x))"
  shows "mxlTimestampToIndex rate x = MXL_UNDEFINED_INDEX \<and>
         mxlIndexToTimestamp rate x = MXL_UNDEFINED_INDEX \<and>
         mxlGetNsUntilIndex clock x rate = MXL_UNDEFINED_INDEX"
proof -
  consider (rate) "\<not> isValidEditRate rate" | (arg) "(2 ^ 64 - 1) div 2 < uint x"
    using assms invalid_rate_cases [of rate]
      timestamp_math_never_overflows index_math_never_overflows
    by blast
  then show ?thesis
  proof cases
    case rate
    then show ?thesis
      by (simp add: mxlTimestampToIndex_def mxlIndexToTimestamp_def mxlGetNsUntilIndex_def)
  next
    case arg
    then have "\<not> isValidTimestamp x" "\<not> isValidIndex x"
      by (simp_all add: isValidTimestamp_iff isValidIndex_iff)
    then show ?thesis
      by (simp add: mxlTimestampToIndex_def mxlIndexToTimestamp_def mxlGetNsUntilIndex_def)
  qed
qed

theorem sentinel_on_invalid_input_witness:
  "mxlTimestampToIndex None 0 = MXL_UNDEFINED_INDEX \<and>
   mxlIndexToTimestamp (Some \<lparr>numerator = 0, denominator = 1001\<rparr>) 7 = MXL_UNDEFINED_INDEX \<and>
   mxlGetNsUntilIndex \<lparr>tp_ok = True, tp_value = 5\<rparr> 1000
     (Some \<lparr>numerator = 2000000000, denominator = 1\<rparr>) = MXL_UNDEFINED_INDEX \<and>
   mxlIndexToTimestamp (Some \<lparr>numerator = 30000, denominator = 1001\<rparr>) 9223372036854775808
     = MXL_UNDEFINED_INDEX"
  using sentinel_on_invalid_input [of None 0]
    sentinel_on_invalid_input [of "Some \<lparr>numerator = 0, denominator = 1001\<rparr>" 7]
    sentinel_on_invalid_input [of "Some \<lparr>numerator = 2000000000, denominator = 1\<rparr>" 1000
      "\<lparr>tp_ok = True, tp_value = 5\<rparr>"]
    sentinel_on_invalid_input [of "Some \<lparr>numerator = 30000, denominator = 1001\<rparr>"
      9223372036854775808]
  by simp

lemma mxlTimestampToIndex_range:
  "mxlTimestampToIndex rate x = MXL_UNDEFINED_INDEX \<or>
   mxlTimestampToIndex rate x \<le> MAX_REASONABLE_TIMESTAMP"
  unfolding mxlTimestampToIndex_def Let_def
  using safecast_range by (simp split: option.split)

lemma mxlIndexToTimestamp_range:
  "mxlIndexToTimestamp rate x = MXL_UNDEFINED_INDEX \<or>
   mxlIndexToTimestamp rate x \<le> MAX_REASONABLE_TIMESTAMP"
  unfolding mxlIndexToTimestamp_def Let_def
  using safecast_range by (simp split: option.split)

text \<open>
  Claim C9. For every rate pointer and every argument, \<open>mxlTimestampToIndex\<close> and
  \<open>mxlIndexToTimestamp\<close> return either \<open>MXL_UNDEFINED_INDEX\<close> or a value of at most
  \<open>u64::MAX / 2\<close>; the sentinel is \<open>u64::MAX\<close>, above that bound, so a defined
  result is never taken for it.
\<close>

theorem defined_results_below_half_range:
  "(mxlTimestampToIndex rate x = MXL_UNDEFINED_INDEX \<or>
      uint (mxlTimestampToIndex rate x) \<le> (2 ^ 64 - 1) div 2) \<and>
   (mxlIndexToTimestamp rate x = MXL_UNDEFINED_INDEX \<or>
      uint (mxlIndexToTimestamp rate x) \<le> (2 ^ 64 - 1) div 2) \<and>
   (2 ^ 64 - 1) div 2 < uint MXL_UNDEFINED_INDEX \<and>
   uint MXL_UNDEFINED_INDEX = 2 ^ 64 - 1"
  using mxlTimestampToIndex_range [of rate x] mxlIndexToTimestamp_range [of rate x]
  by (simp add: word_u64_bounds_iff MXL_UNDEFINED_INDEX_def)

theorem defined_results_below_half_range_witness:
  "uint (mxlTimestampToIndex (Some \<lparr>numerator = 1000000000, denominator = 1\<rparr>) 9223372036854775807)
     \<le> (2 ^ 64 - 1) div 2"
proof -
  let ?r = "\<lparr>numerator = 1000000000, denominator = 1\<rparr>"
  have v: "isValidEditRate (Some ?r)" by (simp add: isValidEditRate_iff)
  have t: "isValidTimestamp 9223372036854775807" by (simp add: isValidTimestamp_iff)
  have "uint (mxlTimestampToIndex (Some ?r) 9223372036854775807) = 9223372036854775807"
    using mxlTimestampToIndex_exact [OF v t] by simp
  then have "mxlTimestampToIndex (Some ?r) 9223372036854775807 \<noteq> MXL_UNDEFINED_INDEX"
    by (auto simp: MXL_UNDEFINED_INDEX_def)
  then show ?thesis
    using defined_results_below_half_range [of "Some ?r" 9223372036854775807] by blast
qed


lemma mxlGetTime_range: "mxlGetTime clock \<le> MAX_REASONABLE_TIMESTAMP"
  unfolding mxlGetTime_def Let_def by (simp add: not_less)

text \<open>
  Claim C10. \<open>mxlGetCurrentIndex\<close> returns \<open>MXL_UNDEFINED_INDEX\<close> when the rate is
  invalid or the clock read fails (\<open>mxlGetTime\<close> returns 0); otherwise it is
  \<open>mxlTimestampToIndex\<close> of the rate and the clock value read during the call.
\<close>

theorem currentIndex_undefined_on_clock_failure:
  "mxlGetCurrentIndex clock rate =
     (if isValidEditRate rate \<and> mxlGetTime clock \<noteq> 0
      then mxlTimestampToIndex rate (mxlGetTime clock)
      else MXL_UNDEFINED_INDEX)"
  unfolding mxlGetCurrentIndex_def Let_def by simp

theorem currentIndex_undefined_on_clock_failure_witness:
  "mxlGetCurrentIndex \<lparr>tp_ok = False, tp_value = 12\<rparr>
     (Some \<lparr>numerator = 25, denominator = 1\<rparr>) = MXL_UNDEFINED_INDEX \<and>
   mxlGetCurrentIndex \<lparr>tp_ok = True, tp_value = - 3\<rparr>
     (Some \<lparr>numerator = 25, denominator = 1\<rparr>) = MXL_UNDEFINED_INDEX \<and>
   mxlGetCurrentIndex \<lparr>tp_ok = True, tp_value = 2000000000\<rparr>
     (Some \<lparr>numerator = 25, denominator = 0\<rparr>) = MXL_UNDEFINED_INDEX \<and>
   mxlGetCurrentIndex \<lparr>tp_ok = True, tp_value = 2000000000\<rparr>
     (Some \<lparr>numerator = 25, denominator = 1\<rparr>) =
       mxlTimestampToIndex (Some \<lparr>numerator = 25, denominator = 1\<rparr>) 2000000000"
  using currentIndex_undefined_on_clock_failure
      [of "\<lparr>tp_ok = False, tp_value = 12\<rparr>" "Some \<lparr>numerator = 25, denominator = 1\<rparr>"]
    currentIndex_undefined_on_clock_failure
      [of "\<lparr>tp_ok = True, tp_value = - 3\<rparr>" "Some \<lparr>numerator = 25, denominator = 1\<rparr>"]
    currentIndex_undefined_on_clock_failure
      [of "\<lparr>tp_ok = True, tp_value = 2000000000\<rparr>" "Some \<lparr>numerator = 25, denominator = 0\<rparr>"]
    currentIndex_undefined_on_clock_failure
      [of "\<lparr>tp_ok = True, tp_value = 2000000000\<rparr>" "Some \<lparr>numerator = 25, denominator = 1\<rparr>"]
  by (simp add: mxlGetTime_def isValidEditRate_iff MAX_REASONABLE_TIMESTAMP_def)

text \<open>
  Claim C7, as stated, fails when the clock read fails. At rate 1/1 the timestamp of
  index 5 is \<open>5 * 10\<^sup>9\<close>, which lies after the clock reading 0 that \<open>mxlGetTime\<close> reports
  for a failed read; the claim asks for the difference \<open>5 * 10\<^sup>9\<close>, the function returns
  the sentinel.
\<close>

theorem nsUntilIndex_counterexample:
  "isValidEditRate (Some \<lparr>numerator = 1, denominator = 1\<rparr>) \<and>
   isValidIndex 5 \<and>
   mxlIndexToTimestamp (Some \<lparr>numerator = 1, denominator = 1\<rparr>) 5 = 5000000000 \<and>
   mxlGetTime \<lparr>tp_ok = False, tp_value = 0\<rparr> = 0 \<and>
   mxlGetTime \<lparr>tp_ok = False, tp_value = 0\<rparr>
     < mxlIndexToTimestamp (Some \<lparr>numerator = 1, denominator = 1\<rparr>) 5 \<and>
   mxlGetNsUntilIndex \<lparr>tp_ok = False, tp_value = 0\<rparr> 5
     (Some \<lparr>numerator = 1, denominator = 1\<rparr>) = MXL_UNDEFINED_INDEX \<and>
   MXL_UNDEFINED_INDEX \<noteq> 5000000000 - mxlGetTime \<lparr>tp_ok = False, tp_value = 0\<rparr>"
proof -
  let ?r = "\<lparr>numerator = 1, denominator = 1\<rparr>"
  have v: "isValidEditRate (Some ?r)" by (simp add: isValidEditRate_iff)
  have t: "isValidIndex 5" by (simp add: isValidIndex_iff)
  have ts: "mxlIndexToTimestamp (Some ?r) 5 = 5000000000"
    using mxlIndexToTimestamp_exact [OF v t] by simp
  have g: "mxlGetTime \<lparr>tp_ok = False, tp_value = 0\<rparr> = 0" by (simp add: mxlGetTime_def)
  have "mxlGetNsUntilIndex \<lparr>tp_ok = False, tp_value = 0\<rparr> 5 (Some ?r) = MXL_UNDEFINED_INDEX"
    unfolding mxlGetNsUntilIndex_def Let_def using v t ts g
    by (simp add: MXL_UNDEFINED_INDEX_def)
  then show ?thesis using v t ts g by (simp add: MXL_UNDEFINED_INDEX_def)
qed

text \<open>
  Claim C7, amended. For a rate whose numerator and denominator lie in \<open>[1, 10\<^sup>9]\<close> and
  an index of at most \<open>u64::MAX / 2\<close>, \<open>mxlGetNsUntilIndex\<close> returns the sentinel when
  the conversion of the index overflows or when \<open>mxlGetTime\<close> returns 0; otherwise it
  returns 0 when the timestamp of the index is at or before the clock reading, and the
  exact difference of the two when the timestamp lies after it.
\<close>

theorem nsUntilIndex_cases:
  assumes "1 \<le> uint (numerator r)" and "uint (numerator r) \<le> 1000000000"
    and "1 \<le> uint (denominator r)" and "uint (denominator r) \<le> 1000000000"
    and "uint idx \<le> (2 ^ 64 - 1) div 2"
  shows "let target = mxlIndexToTimestamp (Some r) idx;
             now = mxlGetTime clock;
             result = mxlGetNsUntilIndex clock idx (Some r)
         in if target = MXL_UNDEFINED_INDEX \<or> now = 0 then result = MXL_UNDEFINED_INDEX
            else if target \<le> now then result = 0
            else uint result = uint target - uint now"
proof -
  define target where "target = mxlIndexToTimestamp (Some r) idx"
  define now where "now = mxlGetTime clock"
  have v: "isValidEditRate (Some r)" using assms by (simp add: isValidEditRate_iff)
  have t: "isValidIndex idx" using assms(5) by (simp add: isValidIndex_iff)
  have unfold: "mxlGetNsUntilIndex clock idx (Some r) =
      (if target = MXL_UNDEFINED_INDEX then MXL_UNDEFINED_INDEX
       else if now = 0 then MXL_UNDEFINED_INDEX
       else if target < now then 0
       else if target - now > MAX_REASONABLE_TIMESTAMP then MXL_UNDEFINED_INDEX
       else target - now)"
    unfolding mxlGetNsUntilIndex_def Let_def target_def now_def using v t by simp
  have small: "target - now \<le> MAX_REASONABLE_TIMESTAMP"
    if "target \<noteq> MXL_UNDEFINED_INDEX" and "now \<le> target"
  proof -
    have "target \<le> MAX_REASONABLE_TIMESTAMP"
      using that(1) mxlIndexToTimestamp_range [of "Some r" idx] by (simp add: target_def)
    moreover have "target - now \<le> target" using that(2) by (rule word_sub_le)
    ultimately show ?thesis by (rule order_trans [rotated])
  qed
  have exact: "uint (target - now) = uint target - uint now" if "now \<le> target"
    using that by (simp add: uint_sub_lem [THEN iffD1] word_le_def)
  have "if target = MXL_UNDEFINED_INDEX \<or> now = 0
          then mxlGetNsUntilIndex clock idx (Some r) = MXL_UNDEFINED_INDEX
        else if target \<le> now then mxlGetNsUntilIndex clock idx (Some r) = 0
        else uint (mxlGetNsUntilIndex clock idx (Some r)) = uint target - uint now"
  proof (cases "target = MXL_UNDEFINED_INDEX \<or> now = 0")
    case True
    then show ?thesis using unfold by auto
  next
    case False
    show ?thesis
    proof (cases "target < now")
      case True
      then show ?thesis using False unfold by auto
    next
      case ge: False
      then have le: "now \<le> target" by simp
      then have "mxlGetNsUntilIndex clock idx (Some r) = target - now"
        using False ge unfold small by (auto simp: not_less)
      then show ?thesis using False le exact by auto
    qed
  qed
  then show ?thesis by (simp add: Let_def target_def now_def)
qed

theorem nsUntilIndex_cases_witness:
  "uint (mxlGetNsUntilIndex \<lparr>tp_ok = True, tp_value = 7\<rparr> 5
           (Some \<lparr>numerator = 1, denominator = 1\<rparr>)) = 4999999993"
proof -
  let ?r = "\<lparr>numerator = 1, denominator = 1\<rparr>"
  have v: "isValidEditRate (Some ?r)" by (simp add: isValidEditRate_iff)
  have t: "isValidIndex 5" by (simp add: isValidIndex_iff)
  have ts: "mxlIndexToTimestamp (Some ?r) 5 = 5000000000"
    using mxlIndexToTimestamp_exact [OF v t] by simp
  have g: "mxlGetTime \<lparr>tp_ok = True, tp_value = 7\<rparr> = 7"
    by (simp add: mxlGetTime_def MAX_REASONABLE_TIMESTAMP_def)
  show ?thesis
    using nsUntilIndex_cases [of ?r 5 "\<lparr>tp_ok = True, tp_value = 7\<rparr>"]
    by (simp add: ts g MXL_UNDEFINED_INDEX_def Let_def)
qed

section \<open>Properties of the flow manager\<close>

subsection \<open>The filesystem\<close>

lemma map_of_store: "map_of (store p n fs) q = (if q = p then Some n else map_of fs q)"
  unfolding store_def by (induction fs) auto

lemma keys_store: "fst ` set (store p n fs) = insert p (fst ` set fs)"
  unfolding store_def by force

lemma exists_path_iff_key: "exists_path fs p \<longleftrightarrow> p \<in> fst ` set fs"
  unfolding exists_path_def by (simp add: map_of_eq_None_iff)

lemma is_directory_exists: "is_directory fs p \<Longrightarrow> exists_path fs p"
  by (simp add: is_directory_def exists_path_def)

lemma wellformed_parent:
  assumes "wellformed fs" and "q \<in> fst ` set fs" and "q \<noteq> []"
  shows "is_directory fs (butlast q)"
  using assms unfolding wellformed_def list_all_iff by auto

lemma nothing_below_missing:
  assumes wf: "wellformed fs" and missing: "\<not> exists_path fs p"
  shows "p @ r \<notin> fst ` set fs"
proof (induction r rule: rev_induct)
  case Nil
  then show ?case using missing by (simp add: exists_path_iff_key)
next
  case (snoc x r)
  show ?case
  proof
    assume "p @ r @ [x] \<in> fst ` set fs"
    then have "is_directory fs (butlast (p @ r @ [x]))"
      using wf by (intro wellformed_parent) simp_all
    then have "exists_path fs (p @ r)"
      by (simp add: butlast_append is_directory_exists)
    then show False using snoc by (simp add: exists_path_iff_key)
  qed
qed

lemma no_entry_below_missing:
  assumes "wellformed fs" and "\<not> exists_path fs p" and "e \<in> set fs"
  shows "\<not> prefix p (fst e)"
proof
  assume "prefix p (fst e)"
  then obtain r where "fst e = p @ r" by (auto elim: prefixE)
  then have "p @ r \<in> fst ` set fs" using assms(3) by (metis imageI)
  then show False using nothing_below_missing [OF assms(1,2)] by simp
qed

lemma remove_all_fs_missing:
  assumes "wellformed fs" and "\<not> exists_path fs p"
  shows "remove_all_fs p fs = fs"
  unfolding remove_all_fs_def using no_entry_below_missing [OF assms]
  by (intro filter_True) simp

lemma removed_count_missing:
  assumes "wellformed fs" and "\<not> exists_path fs p"
  shows "filter (\<lambda>e. prefix p (fst e)) fs = []"
  using no_entry_below_missing [OF assms] by (simp add: filter_empty_conv)

lemma length_remove_all_fs:
  "length (remove_all_fs p fs) + length (filter (\<lambda>e. prefix p (fst e)) fs) = length fs"
  unfolding remove_all_fs_def using sum_length_filter_compl [of "\<lambda>e. prefix p (fst e)" fs]
  by simp

lemma remove_all_fs_gone: "\<not> exists_path (remove_all_fs p fs) p"
  unfolding exists_path_iff_key remove_all_fs_def by auto


lemma remove_all_fs_left_behind:
  "remove_all_fs p (left_behind keep p fs) = remove_all_fs p fs"
  unfolding remove_all_fs_def left_behind_def filter_filter
  by (intro filter_cong) auto

lemma length_left_behind: "length (left_behind keep p fs) \<le> length fs"
  by (simp add: left_behind_def)

lemma left_behind_missing:
  assumes "wellformed fs" and "\<not> exists_path fs p"
  shows "left_behind keep p fs = fs"
  unfolding left_behind_def using no_entry_below_missing [OF assms]
  by (intro filter_True) simp



lemma removed_count_present:
  assumes "exists_path fs p"
  shows "filter (\<lambda>e. prefix p (fst e)) fs \<noteq> []"
proof -
  from assms obtain e where "e \<in> set fs" and "fst e = p"
    by (auto simp: exists_path_iff_key)
  then show ?thesis by (auto simp: filter_empty_conv)
qed

text \<open>
  Claim C6, as stated, fails when \<open>remove_all\<close> fails part of the way. The flow directory
  \<open>shm/0002.mxl-flow\<close> holds the file \<open>data\<close>; \<open>remove_all\<close> removes the file and then
  fails on the directory itself. An entry of the filesystem has been removed, and
  \<open>deleteFlow\<close> returns \<open>false\<close>: the claim asks for \<open>true\<close>.
\<close>

theorem deleteFlow_false_after_partial_removal:
  "exists_path example_filesystem [''shm'', ''0002.mxl-flow'', ''data''] \<and>
   fst (deleteFlow example_platform
          (example_environment\<lparr>delete_removal := Fails (\<lambda>p. p = [''shm'', ''0002.mxl-flow''])\<rparr>)
          [''shm''] 2 example_filesystem) = Inr False \<and>
   \<not> exists_path
       (snd (deleteFlow example_platform
          (example_environment\<lparr>delete_removal := Fails (\<lambda>p. p = [''shm'', ''0002.mxl-flow''])\<rparr>)
          [''shm''] 2 example_filesystem))
       [''shm'', ''0002.mxl-flow'', ''data''] \<and>
   length (snd (deleteFlow example_platform
          (example_environment\<lparr>delete_removal := Fails (\<lambda>p. p = [''shm'', ''0002.mxl-flow''])\<rparr>)
          [''shm''] 2 example_filesystem)) < length example_filesystem"
  by code_simp

text \<open>
  Claim C6, amended. \<open>deleteFlow(id)\<close> never throws: it always returns a truth value. It
  returns \<open>false\<close>, with the filesystem as it was, when the directory
  \<open><domain>/<uuid>.mxl-flow\<close> is absent. When \<open>remove_all\<close> fails with a filesystem error
  it returns \<open>false\<close>; entries of the flow directory may be gone by then, and nothing
  outside the flow directory has changed. When \<open>remove_all\<close> completes, \<open>deleteFlow\<close>
  returns whether the flow directory existed, and the directory is gone with everything
  below it. So \<open>deleteFlow\<close> returns \<open>true\<close> exactly when \<open>remove_all\<close> completes and
  removes at least one entry.
\<close>

theorem deleteFlow_total_and_reports_completed_removal:
  "(\<exists>b. fst (deleteFlow pf env mxlDomain flowId fs) = Inr b) \<and>
   (wellformed fs \<and>
      \<not> exists_path fs (makeFlowDirectoryName mxlDomain (uuid_to_string pf flowId))
      \<longrightarrow> deleteFlow pf env mxlDomain flowId fs = (Inr False, fs)) \<and>
   (delete_removal env \<noteq> Completes \<longrightarrow>
      fst (deleteFlow pf env mxlDomain flowId fs) = Inr False \<and>
      length (snd (deleteFlow pf env mxlDomain flowId fs)) \<le> length fs \<and>
      remove_all_fs (makeFlowDirectoryName mxlDomain (uuid_to_string pf flowId))
          (snd (deleteFlow pf env mxlDomain flowId fs)) =
        remove_all_fs (makeFlowDirectoryName mxlDomain (uuid_to_string pf flowId)) fs) \<and>
   (wellformed fs \<and> delete_removal env = Completes \<longrightarrow>
      deleteFlow pf env mxlDomain flowId fs =
        (Inr (exists_path fs (makeFlowDirectoryName mxlDomain (uuid_to_string pf flowId))),
         remove_all_fs (makeFlowDirectoryName mxlDomain (uuid_to_string pf flowId)) fs)) \<and>
   (fst (deleteFlow pf env mxlDomain flowId fs) = Inr True
      \<longleftrightarrow> delete_removal env = Completes \<and>
          length (snd (deleteFlow pf env mxlDomain flowId fs)) < length fs) \<and>
   (fst (deleteFlow pf env mxlDomain flowId fs) = Inr True
      \<longrightarrow> snd (deleteFlow pf env mxlDomain flowId fs) =
            remove_all_fs (makeFlowDirectoryName mxlDomain (uuid_to_string pf flowId)) fs \<and>
          \<not> exists_path (snd (deleteFlow pf env mxlDomain flowId fs))
            (makeFlowDirectoryName mxlDomain (uuid_to_string pf flowId)))"
proof -
  define flowPath where "flowPath = makeFlowDirectoryName mxlDomain (uuid_to_string pf flowId)"
  define removed where "removed = length (filter (\<lambda>e. prefix flowPath (fst e)) fs)"
  have completes: "deleteFlow pf env mxlDomain flowId fs =
      (if removed = 0 then (Inr False, remove_all_fs flowPath fs)
       else (Inr True, remove_all_fs flowPath fs))"
    if "delete_removal env = Completes"
    using that by (simp add: deleteFlow_def remove_all_def Let_def flowPath_def removed_def)
  have fails: "deleteFlow pf env mxlDomain flowId fs = (Inr False, left_behind keep flowPath fs)"
    if "delete_removal env = Fails keep" for keep
    using that by (simp add: deleteFlow_def remove_all_def Let_def flowPath_def)
  have len: "length (remove_all_fs flowPath fs) + removed = length fs"
    unfolding removed_def by (rule length_remove_all_fs)
  have total: "\<exists>b. fst (deleteFlow pf env mxlDomain flowId fs) = Inr b"
    using completes fails by (cases "delete_removal env") auto
  have absent: "deleteFlow pf env mxlDomain flowId fs = (Inr False, fs)"
    if "wellformed fs" and "\<not> exists_path fs flowPath"
  proof (cases "delete_removal env")
    case Completes
    then show ?thesis
      using completes remove_all_fs_missing [OF that] removed_count_missing [OF that]
      by (simp add: removed_def)
  next
    case (Fails keep)
    then show ?thesis using fails left_behind_missing [OF that] by simp
  qed
  have failed: "fst (deleteFlow pf env mxlDomain flowId fs) = Inr False \<and>
      length (snd (deleteFlow pf env mxlDomain flowId fs)) \<le> length fs \<and>
      remove_all_fs flowPath (snd (deleteFlow pf env mxlDomain flowId fs)) =
        remove_all_fs flowPath fs"
    if "delete_removal env \<noteq> Completes"
  proof -
    from that obtain keep where "delete_removal env = Fails keep"
      by (cases "delete_removal env") auto
    then show ?thesis
      using fails by (simp add: length_left_behind remove_all_fs_left_behind)
  qed
  have completed: "deleteFlow pf env mxlDomain flowId fs =
      (Inr (exists_path fs flowPath), remove_all_fs flowPath fs)"
    if "wellformed fs" and "delete_removal env = Completes"
  proof (cases "exists_path fs flowPath")
    case True
    then have "removed \<noteq> 0" using removed_count_present by (simp add: removed_def)
    then show ?thesis using completes that(2) True by simp
  next
    case False
    then have "removed = 0" using removed_count_missing that(1) by (simp add: removed_def)
    then show ?thesis using completes that(2) False by simp
  qed
  have exact: "fst (deleteFlow pf env mxlDomain flowId fs) = Inr True
      \<longleftrightarrow> delete_removal env = Completes \<and>
          length (snd (deleteFlow pf env mxlDomain flowId fs)) < length fs"
  proof (cases "delete_removal env")
    case Completes
    then show ?thesis using completes len by auto
  next
    case (Fails keep)
    then show ?thesis using fails by simp
  qed
  have gone: "snd (deleteFlow pf env mxlDomain flowId fs) = remove_all_fs flowPath fs \<and>
      \<not> exists_path (snd (deleteFlow pf env mxlDomain flowId fs)) flowPath"
    if "fst (deleteFlow pf env mxlDomain flowId fs) = Inr True"
  proof -
    from that exact have "delete_removal env = Completes" by simp
    then show ?thesis
      using completes remove_all_fs_gone [of flowPath fs] by (auto split: if_splits)
  qed
  show ?thesis
    unfolding flowPath_def [symmetric]
    using total absent failed completed exact gone by blast
qed


lemma extension_flow_suffix:
  assumes "s \<noteq> []"
  shows "extension (s @ ''.mxl-flow'') = ''.mxl-flow''"
proof -
  let ?f = "s @ ''.mxl-flow''"
  have ne1: "?f \<noteq> ''.''"
  proof
    assume "?f = ''.''"
    then have "length ?f = length ''.''" by (rule arg_cong)
    then show False by simp
  qed
  have ne2: "?f \<noteq> ''..''"
  proof
    assume "?f = ''..''"
    then have "length ?f = length ''..''" by (rule arg_cong)
    then show False by simp
  qed
  have tw: "takeWhile (\<lambda>c. c \<noteq> CHR ''.'') (rev ?f) = ''wolf-lxm''" by simp
  have dot: "CHR ''.'' \<in> set ?f" by simp
  have k: "length ?f - Suc (length ''wolf-lxm'') = length s" by simp
  show ?thesis
    unfolding extension_def Let_def tw k using ne1 ne2 dot assms by simp
qed

lemma extension_flow_suffix_iff:
  "extension f = FLOW_DIRECTORY_NAME_SUFFIX \<longleftrightarrow> (\<exists>s. s \<noteq> [] \<and> f = s @ ''.mxl-flow'')"
proof
  assume ext: "extension f = FLOW_DIRECTORY_NAME_SUFFIX"
  define k where "k = length f - Suc (length (takeWhile (\<lambda>c. c \<noteq> CHR ''.'') (rev f)))"
  have "k \<noteq> 0 \<and> drop k f = ''.mxl-flow''"
    using ext unfolding extension_def FLOW_DIRECTORY_NAME_SUFFIX_def Let_def k_def
    by (auto split: if_splits)
  then have k0: "k \<noteq> 0" and d: "drop k f = ''.mxl-flow''" by blast+
  have "take k f @ drop k f = f" by (rule append_take_drop_id)
  then have f: "take k f @ ''.mxl-flow'' = f" by (simp only: d)
  have "f \<noteq> []" using d by auto
  then have "take k f \<noteq> []" using k0 by simp
  then show "\<exists>s. s \<noteq> [] \<and> f = s @ ''.mxl-flow''" using f [symmetric] by blast
next
  assume "\<exists>s. s \<noteq> [] \<and> f = s @ ''.mxl-flow''"
  then show "extension f = FLOW_DIRECTORY_NAME_SUFFIX"
    using extension_flow_suffix by (auto simp: FLOW_DIRECTORY_NAME_SUFFIX_def)
qed

lemma stem_flow_suffix:
  assumes "s \<noteq> []"
  shows "stem (s @ ''.mxl-flow'') = s"
  unfolding stem_def extension_flow_suffix [OF assms] by simp


lemma directory_entries_iff:
  "e \<in> set (directory_entries fs d) \<longleftrightarrow> exists_path fs e \<and> (\<exists>name. e = d @ [name])"
proof -
  have "length e = Suc (length d) \<and> prefix d e \<longleftrightarrow> (\<exists>name. e = d @ [name])"
  proof
    assume a: "length e = Suc (length d) \<and> prefix d e"
    then obtain r where r: "e = d @ r" by (auto elim: prefixE)
    then have "length r = 1" using a by simp
    then obtain name where "r = [name]" by (cases r) auto
    then show "\<exists>name. e = d @ [name]" using r by blast
  next
    assume "\<exists>name. e = d @ [name]"
    then show "length e = Suc (length d) \<and> prefix d e" by auto
  qed
  then show ?thesis
    unfolding directory_entries_def exists_path_iff_key by auto
qed

lemma set_collectFlowIds:
  "set (collectFlowIds pf fs es acc) =
     set acc \<union> {u. \<exists>e \<in> set es. is_directory fs e \<and>
                     extension (filename e) = FLOW_DIRECTORY_NAME_SUFFIX \<and>
                     uuid_from_string pf (stem (filename e)) = Some u}"
proof (induction es arbitrary: acc)
  case Nil
  then show ?case by simp
next
  case (Cons e es)
  show ?case
  proof (cases "is_directory fs e \<and> extension (filename e) = FLOW_DIRECTORY_NAME_SUFFIX")
    case False
    then show ?thesis using Cons.IH [of acc] by auto
  next
    case True
    show ?thesis
    proof (cases "uuid_from_string pf (stem (filename e))")
      case None
      then show ?thesis using True Cons.IH [of acc] by auto
    next
      case (Some uid)
      then show ?thesis using True Cons.IH [of "acc @ [uid]"] by auto
    qed
  qed
qed

lemma listed_ids_characterised:
  "{u. \<exists>e \<in> set (directory_entries fs d). is_directory fs e \<and>
         extension (filename e) = FLOW_DIRECTORY_NAME_SUFFIX \<and>
         uuid_from_string pf (stem (filename e)) = Some u}
   = {u. \<exists>s. s \<noteq> [] \<and> is_directory fs (makeFlowDirectoryName d s) \<and>
             uuid_from_string pf s = Some u}"
  (is "?L = ?R")
proof (rule set_eqI)
  fix u
  show "u \<in> ?L \<longleftrightarrow> u \<in> ?R"
  proof
    assume "u \<in> ?L"
    then obtain e where e: "e \<in> set (directory_entries fs d)" "is_directory fs e"
        "extension (filename e) = FLOW_DIRECTORY_NAME_SUFFIX"
        "uuid_from_string pf (stem (filename e)) = Some u"
      by blast
    from e(1) obtain name where name: "e = d @ [name]"
      by (auto simp: directory_entries_iff)
    then have fn: "filename e = name" by (simp add: filename_def)
    from e(3) obtain s where s: "s \<noteq> []" "name = s @ ''.mxl-flow''"
      unfolding fn extension_flow_suffix_iff by blast
    have "stem name = s" using s by (simp add: stem_flow_suffix)
    then have "uuid_from_string pf s = Some u" using e(4) fn by simp
    moreover have "is_directory fs (makeFlowDirectoryName d s)"
      using e(2) name s by (simp add: makeFlowDirectoryName_def FLOW_DIRECTORY_NAME_SUFFIX_def)
    ultimately show "u \<in> ?R" using s(1) by blast
  next
    assume "u \<in> ?R"
    then obtain s where s: "s \<noteq> []" "is_directory fs (makeFlowDirectoryName d s)"
        "uuid_from_string pf s = Some u"
      by blast
    define e where "e = makeFlowDirectoryName d s"
    have e_eq: "e = d @ [s @ ''.mxl-flow'']"
      by (simp add: e_def makeFlowDirectoryName_def FLOW_DIRECTORY_NAME_SUFFIX_def)
    then have fn: "filename e = s @ ''.mxl-flow''" by (simp add: filename_def)
    have "e \<in> set (directory_entries fs d)"
      using s(2) e_eq by (auto simp: directory_entries_iff e_def [symmetric] is_directory_exists)
    moreover have "extension (filename e) = FLOW_DIRECTORY_NAME_SUFFIX"
      unfolding fn extension_flow_suffix_iff using s(1) by blast
    moreover have "uuid_from_string pf (stem (filename e)) = Some u"
      unfolding fn using s by (simp add: stem_flow_suffix)
    ultimately show "u \<in> ?L" using s(2) e_def by blast
  qed
qed

text \<open>
  Claim C5. When the domain is a directory that can be read, \<open>listFlows\<close> returns
  exactly the identifiers \<open>u\<close> for which the domain holds a directory named
  \<open><stem>.mxl-flow\<close> whose (non-empty) stem parses to \<open>u\<close>; files, other suffixes and
  unparsable stems contribute nothing. When the domain does not exist, \<open>listFlows\<close>
  fails with the filesystem error \<open>no_such_file_or_directory\<close>.
\<close>

theorem listFlows_exactly_published:
  "(is_directory fs mxlDomain \<and> \<not> iteration_refused env \<longrightarrow>
      (\<exists>ids. listFlows pf env mxlDomain fs = Inr ids \<and>
         set ids = {u. \<exists>s. s \<noteq> [] \<and> is_directory fs (makeFlowDirectoryName mxlDomain s) \<and>
                          uuid_from_string pf s = Some u})) \<and>
   (\<not> exists_path fs mxlDomain \<longrightarrow>
      listFlows pf env mxlDomain fs = Inl (filesystem_error no_such_file_or_directory))"
proof (intro conjI impI)
  assume a: "is_directory fs mxlDomain \<and> \<not> iteration_refused env"
  then have "listFlows pf env mxlDomain fs =
      Inr (collectFlowIds pf fs (directory_entries fs mxlDomain) [])"
    by (simp add: listFlows_def is_directory_exists)
  moreover have "set (collectFlowIds pf fs (directory_entries fs mxlDomain) []) =
      {u. \<exists>s. s \<noteq> [] \<and> is_directory fs (makeFlowDirectoryName mxlDomain s) \<and>
                uuid_from_string pf s = Some u}"
    unfolding set_collectFlowIds listed_ids_characterised by simp
  ultimately show "\<exists>ids. listFlows pf env mxlDomain fs = Inr ids \<and>
      set ids = {u. \<exists>s. s \<noteq> [] \<and> is_directory fs (makeFlowDirectoryName mxlDomain s) \<and>
                       uuid_from_string pf s = Some u}"
    by blast
next
  assume "\<not> exists_path fs mxlDomain"
  then show "listFlows pf env mxlDomain fs = Inl (filesystem_error no_such_file_or_directory)"
    by (simp add: listFlows_def)
qed

subsection \<open>Steps inside the staging directory\<close>

lemma remove_all_fs_store:
  assumes "prefix t p"
  shows "remove_all_fs t (store p n fs) = remove_all_fs t fs"
proof -
  have "filter (\<lambda>e. \<not> prefix t (fst e)) (filter (\<lambda>e. fst e \<noteq> p) fs) =
        filter (\<lambda>e. \<not> prefix t (fst e)) fs"
    unfolding filter_filter using assms by (intro filter_cong) auto
  then show ?thesis using assms by (simp add: remove_all_fs_def store_def)
qed

lemma kept_refl: "kept t d fs fs"
  by (simp add: kept_def)

lemma kept_trans: "kept t d fs fs' \<Longrightarrow> kept t d fs' fs'' \<Longrightarrow> kept t d fs fs''"
  by (simp add: kept_def)

lemma kept_store:
  assumes "prefix t p" and "p \<noteq> d"
  shows "kept t d fs (store p n fs)"
  using assms by (simp add: kept_def remove_all_fs_store map_of_store)

lemma kept_createAccessFile:
  "kept t (makeFlowDescriptorFilePath t) fs (snd (createAccessFile env t fs))"
  unfolding createAccessFile_def Let_def ofstream_open_def
  by (auto simp: kept_refl makeFlowAccessFilePath_def makeFlowDescriptorFilePath_def
      intro!: kept_store)

lemma kept_createFlowSegment:
  "kept t (makeFlowDescriptorFilePath t) fs (snd (createFlowSegment env t fs))"
  unfolding createFlowSegment_def create_segment_def
  by (auto simp: kept_refl makeFlowDataFilePath_def makeFlowDescriptorFilePath_def
      intro!: kept_store)

lemma kept_createContinuousSegment:
  "kept t (makeFlowDescriptorFilePath t) fs (snd (createContinuousSegment env t fs))"
  using kept_createFlowSegment [of t fs env]
  unfolding createContinuousSegment_def by (auto split: prod.splits sum.splits)

lemma kept_store_data:
  "kept t (makeFlowDescriptorFilePath t) fs (store (makeFlowDataFilePath t) n fs)"
  by (auto simp: makeFlowDataFilePath_def makeFlowDescriptorFilePath_def intro!: kept_store)

lemma kept_createGrainDirectory:
  "kept t (makeFlowDescriptorFilePath t) fs
     (snd (createGrainDirectory env (makeGrainDirectoryName t) fs))"
  unfolding createGrainDirectory_def create_directory_def
  by (auto simp: kept_refl makeGrainDirectoryName_def makeFlowDescriptorFilePath_def
      intro!: kept_store)

lemma kept_openChannelBuffers:
  "kept t (makeFlowDescriptorFilePath t) fs (snd (openChannelBuffers env t w fs))"
  unfolding openChannelBuffers_def create_segment_def
  by (auto simp: kept_refl makeChannelDataFilePath_def makeFlowDescriptorFilePath_def
      intro!: kept_store)

lemma kept_createGrains:
  "kept t (makeFlowDescriptorFilePath t) fs
     (snd (createGrains env (makeGrainDirectoryName t) payload is fs))"
proof (induction "is" arbitrary: fs)
  case Nil
  then show ?case by (simp add: kept_refl)
next
  case (Cons i rest)
  let ?g = "makeGrainDataFilePath (makeGrainDirectoryName t) i"
  have below: "prefix t ?g" and other: "?g \<noteq> makeFlowDescriptorFilePath t"
    by (simp_all add: makeGrainDataFilePath_def makeGrainDirectoryName_def
        makeFlowDescriptorFilePath_def)
  show ?case
  proof (cases "create_segment (grain_refused env i) ?g
                  (GrainSegment \<lparr>grainSize = 0, grain_version = 0, deviceIndex = 0\<rparr>) fs")
    case None
    then show ?thesis by (simp add: kept_refl Let_def)
  next
    case (Some fs')
    then have "fs' = store ?g (RegularFile (GrainSegment \<lparr>grainSize = 0, grain_version = 0, deviceIndex = 0\<rparr>)) fs"
      by (auto simp: create_segment_def split: if_splits)
    then have k1: "kept t (makeFlowDescriptorFilePath t) fs fs'"
      using below other by (simp add: kept_store)
    let ?s = "store ?g (RegularFile (GrainSegment \<lparr>grainSize = payload, grain_version = 1, deviceIndex = - 1\<rparr>)) fs'"
    have k2: "kept t (makeFlowDescriptorFilePath t) fs ?s"
      using k1 kept_store [OF below other] by (rule kept_trans)
    have k3: "kept t (makeFlowDescriptorFilePath t) fs
        (snd (createGrains env (makeGrainDirectoryName t) payload rest ?s))"
      using k2 Cons.IH [of ?s] by (rule kept_trans)
    show ?thesis
      using Some k3 by (auto simp: Let_def andThen_def split: prod.splits sum.splits)
  qed
qed



lemma writeFlowDescriptor_stored:
  "\<not> isl (fst (writeFlowDescriptor env t flowDef fs)) \<Longrightarrow>
     map_of (snd (writeFlowDescriptor env t flowDef fs)) (makeFlowDescriptorFilePath t) =
       Some (RegularFile (Text (stream_insert (descriptor_write_stops env) flowDef)))"
  unfolding writeFlowDescriptor_def Let_def
  by (auto simp: map_of_store split: option.splits)


lemma publishFlowDirectory_success:
  "\<not> isl (fst (publishFlowDirectory env src dst fs)) \<Longrightarrow>
     rename False src dst fs = Inr (snd (publishFlowDirectory env src dst fs))"
  unfolding publishFlowDirectory_def permissions_def rename_def
  by (auto split: sum.splits if_splits)

lemma map_of_rekeyed:
  assumes "\<And>e. e \<in> set xs \<Longrightarrow> fst (g e) = k' \<longleftrightarrow> fst e = k"
    and "\<And>e. e \<in> set xs \<Longrightarrow> snd (g e) = snd e"
  shows "map_of (map g xs) k' = map_of xs k"
  using assms
proof (induction xs)
  case Nil
  then show ?case by simp
next
  case (Cons x xs)
  have tail: "map_of (map g xs) k' = map_of xs k"
    using Cons.prems by (intro Cons.IH) simp_all
  have key: "fst (g x) = k' \<longleftrightarrow> fst x = k" and val: "snd (g x) = snd x"
    using Cons.prems by simp_all
  obtain a b where x: "x = (a, b)" by (cases x)
  obtain a' b' where gx: "g x = (a', b')" by (cases "g x")
  show ?case using tail key val by (auto simp: x gx)
qed

lemma map_of_filter_other:
  assumes "q \<noteq> p"
  shows "map_of (filter (\<lambda>e. fst e \<noteq> p) fs) q = map_of fs q"
  using assms by (induction fs) auto

lemma rename_moves_entries:
  assumes "rename refused src dst fs = Inr fs'"
  shows "map_of fs' (dst @ r) = map_of fs (src @ r)"
proof (cases "src = dst")
  case True
  then show ?thesis using assms by (auto simp: rename_def split: if_splits)
next
  case False
  let ?g = "\<lambda>e. if prefix src (fst e) then (dst @ drop (length src) (fst e), snd e) else e"
  let ?xs = "filter (\<lambda>e. fst e \<noteq> dst) fs"
  from assms False have np: "\<not> prefix src dst"
    and empty: "\<not> list_ex (\<lambda>e. strict_prefix dst (fst e)) fs"
    and fs': "fs' = map ?g ?xs"
    by (auto simp: rename_def split: if_splits)
  have key: "fst (?g e) = dst @ r \<longleftrightarrow> fst e = src @ r" if "e \<in> set ?xs" for e
  proof (cases "prefix src (fst e)")
    case True
    then obtain z where z: "fst e = src @ z" by (auto elim: prefixE)
    then show ?thesis using True by simp
  next
    case np': False
    have "fst e \<noteq> dst @ r"
    proof
      assume eq: "fst e = dst @ r"
      have "e \<in> set fs" and "fst e \<noteq> dst" using that by simp_all
      then have "strict_prefix dst (fst e)" using eq by (auto simp: strict_prefix_def)
      then show False using empty \<open>e \<in> set fs\<close> by (auto simp: list_ex_iff)
    qed
    moreover have "fst e \<noteq> src @ r" using np' by auto
    ultimately show ?thesis using np' by simp
  qed
  have val: "snd (?g e) = snd e" for e by simp
  have "map_of (map ?g ?xs) (dst @ r) = map_of ?xs (src @ r)"
    using key val by (rule map_of_rekeyed)
  also have "\<dots> = map_of fs (src @ r)"
    using np by (intro map_of_filter_other) auto
  finally show ?thesis by (simp only: fs')
qed








subsection \<open>Failed and successful creation\<close>

lemma createTemporaryFlowDirectory_cases:
  "(\<exists>e. createTemporaryFlowDirectory env base fs = (Inl (filesystem_error e), fs)) \<or>
   (createTemporaryFlowDirectory env base fs =
      (Inr (base @ [''.mxl-tmp-'' @ tmp_suffix env]),
       store (base @ [''.mxl-tmp-'' @ tmp_suffix env]) Directory fs) \<and>
    \<not> exists_path fs (base @ [''.mxl-tmp-'' @ tmp_suffix env]))"
  unfolding createTemporaryFlowDirectory_def Let_def mkdtemp_def
  by (auto split: option.splits)








lemma andThen_success_descriptor:
  assumes "\<not> isl (fst m) \<longrightarrow> map_of (snd m) d = v"
    and "\<And>a s. map_of s d = v \<Longrightarrow> \<not> isl (fst (f a s)) \<longrightarrow> map_of (snd (f a s)) d' = v"
  shows "\<not> isl (fst (andThen m f)) \<longrightarrow> map_of (snd (andThen m f)) d' = v"
  using assms unfolding andThen_def by (auto split: prod.splits sum.splits)

lemma andThen_last_success_descriptor:
  assumes "\<not> isl (fst m) \<longrightarrow> map_of (snd m) d' = v"
    and "\<And>a s. snd (f a s) = s"
  shows "\<not> isl (fst (andThen m f)) \<longrightarrow> map_of (snd (andThen m f)) d' = v"
  using assms unfolding andThen_def by (auto split: prod.splits sum.splits)

lemma tracked_from_kept:
  assumes "kept t d s s'" and "map_of s d = v"
  shows "A \<longrightarrow> map_of s' d = v"
  using assms by (simp add: kept_def)

lemma publishFlowDirectory_descriptor:
  assumes "map_of s (makeFlowDescriptorFilePath src) = v"
    and "\<not> isl (fst (publishFlowDirectory env src dst s))"
  shows "map_of (snd (publishFlowDirectory env src dst s)) (makeFlowDescriptorFilePath dst) = v"
  using publishFlowDirectory_success [OF assms(2), THEN rename_moves_entries,
      of "[''descriptor.json'']"] assms(1)
  by (simp add: makeFlowDescriptorFilePath_def)

lemma publishDiscrete_descriptor:
  assumes "map_of s (makeFlowDescriptorFilePath src) = v"
  shows "\<not> isl (fst (publishDiscrete env src dst s)) \<longrightarrow>
         map_of (snd (publishDiscrete env src dst s)) (makeFlowDescriptorFilePath dst) = v"
  using publishFlowDirectory_descriptor [OF assms, of env dst]
  unfolding publishDiscrete_def by (auto split: prod.splits sum.splits)

lemma publishContinuous_descriptor:
  assumes "map_of s (makeFlowDescriptorFilePath src) = v"
  shows "\<not> isl (fst (publishContinuous env src dst s)) \<longrightarrow>
         map_of (snd (publishContinuous env src dst s)) (makeFlowDescriptorFilePath dst) = v"
  using publishFlowDirectory_descriptor [OF assms, of env dst]
  unfolding publishContinuous_def by (auto split: prod.splits sum.splits)

lemma createDiscreteFlow_try_descriptor:
  "\<not> isl (fst (createDiscreteFlow_try env mxlDomain t flowId uuidString flowDef fmt
                 grainCount grainRate grainPayloadSize fs)) \<longrightarrow>
   map_of (snd (createDiscreteFlow_try env mxlDomain t flowId uuidString flowDef fmt
                 grainCount grainRate grainPayloadSize fs))
     (makeFlowDescriptorFilePath (makeFlowDirectoryName mxlDomain uuidString)) =
   Some (RegularFile (Text (stream_insert (descriptor_write_stops env) flowDef)))"
  unfolding createDiscreteFlow_try_def Let_def
  apply (rule andThen_success_descriptor [where d = "makeFlowDescriptorFilePath t"])
   apply (rule impI, erule writeFlowDescriptor_stored)
  apply (rule andThen_success_descriptor [where d = "makeFlowDescriptorFilePath t"])
   apply (erule tracked_from_kept [OF kept_createAccessFile])
  apply (rule andThen_success_descriptor [where d = "makeFlowDescriptorFilePath t"])
   apply (erule tracked_from_kept [OF kept_createFlowSegment])
  apply (rule andThen_success_descriptor [where d = "makeFlowDescriptorFilePath t"])
   apply (rule tracked_from_kept [OF kept_createGrainDirectory])
   apply (erule tracked_from_kept [OF kept_store_data, where A = True, simplified])
  apply (rule andThen_success_descriptor [where d = "makeFlowDescriptorFilePath t"])
   apply (erule tracked_from_kept [OF kept_createGrains])
  apply (rule andThen_last_success_descriptor)
   apply (erule publishDiscrete_descriptor)
  apply simp
  done

lemma createContinuousFlow_try_descriptor:
  "\<not> isl (fst (createContinuousFlow_try env mxlDomain t flowId uuidString flowDef fmt
                 sampleRate channelCount sampleWordSize bufferLength fs)) \<longrightarrow>
   map_of (snd (createContinuousFlow_try env mxlDomain t flowId uuidString flowDef fmt
                 sampleRate channelCount sampleWordSize bufferLength fs))
     (makeFlowDescriptorFilePath (makeFlowDirectoryName mxlDomain uuidString)) =
   Some (RegularFile (Text (stream_insert (descriptor_write_stops env) flowDef)))"
  unfolding createContinuousFlow_try_def Let_def
  apply (rule andThen_success_descriptor [where d = "makeFlowDescriptorFilePath t"])
   apply (rule impI, erule writeFlowDescriptor_stored)
  apply (rule andThen_success_descriptor [where d = "makeFlowDescriptorFilePath t"])
   apply (erule tracked_from_kept [OF kept_createContinuousSegment])
  apply (rule andThen_success_descriptor [where d = "makeFlowDescriptorFilePath t"])
   apply (rule tracked_from_kept [OF kept_openChannelBuffers])
   apply (erule tracked_from_kept [OF kept_store_data, where A = True, simplified])
  apply (rule andThen_last_success_descriptor)
   apply (erule publishContinuous_descriptor)
  apply simp
  done

lemma createDiscreteFlow_success:
  assumes "\<not> isl (fst (createDiscreteFlow pf env mxlDomain flowId flowDef flowFormat grainCount
                     grainRate grainPayloadSize fs))"
  shows "\<exists>t. snd (createDiscreteFlow pf env mxlDomain flowId flowDef flowFormat grainCount
                     grainRate grainPayloadSize fs) =
              snd (createDiscreteFlow_try env mxlDomain t flowId (uuid_to_string pf flowId) flowDef
                     (sanitizeFlowFormat pf flowFormat) grainCount grainRate grainPayloadSize
                     (store t Directory fs)) \<and>
             \<not> isl (fst (createDiscreteFlow_try env mxlDomain t flowId (uuid_to_string pf flowId)
                     flowDef (sanitizeFlowFormat pf flowFormat) grainCount grainRate
                     grainPayloadSize (store t Directory fs)))"
proof -
  have d: "mxlIsDiscreteDataFormat pf (sanitizeFlowFormat pf flowFormat)"
    using assms by (auto simp: createDiscreteFlow_def Let_def split: if_splits)
  from createTemporaryFlowDirectory_cases [of env mxlDomain fs]
  obtain t where t: "createTemporaryFlowDirectory env mxlDomain fs = (Inr t, store t Directory fs)"
    using assms d by (auto simp: createDiscreteFlow_def Let_def)
  show ?thesis
    using assms d t
    by (intro exI [of _ t]) (auto simp: createDiscreteFlow_def Let_def split: prod.splits sum.splits)
qed

lemma createContinuousFlow_success:
  assumes "\<not> isl (fst (createContinuousFlow pf env mxlDomain flowId flowDef flowFormat sampleRate
                     channelCount sampleWordSize bufferLength fs))"
  shows "\<exists>t. snd (createContinuousFlow pf env mxlDomain flowId flowDef flowFormat sampleRate
                     channelCount sampleWordSize bufferLength fs) =
              snd (createContinuousFlow_try env mxlDomain t flowId (uuid_to_string pf flowId) flowDef
                     (sanitizeFlowFormat pf flowFormat) sampleRate channelCount sampleWordSize
                     bufferLength (store t Directory fs)) \<and>
             \<not> isl (fst (createContinuousFlow_try env mxlDomain t flowId (uuid_to_string pf flowId)
                     flowDef (sanitizeFlowFormat pf flowFormat) sampleRate channelCount
                     sampleWordSize bufferLength (store t Directory fs)))"
proof -
  have d: "mxlIsContinuousDataFormat pf (sanitizeFlowFormat pf flowFormat)"
    using assms by (auto simp: createContinuousFlow_def Let_def split: if_splits)
  from createTemporaryFlowDirectory_cases [of env mxlDomain fs]
  obtain t where t: "createTemporaryFlowDirectory env mxlDomain fs = (Inr t, store t Directory fs)"
    using assms d by (auto simp: createContinuousFlow_def Let_def)
  show ?thesis
    using assms d t
    by (intro exI [of _ t]) (auto simp: createContinuousFlow_def Let_def split: prod.splits sum.splits)
qed

lemma wellformed_example: "wellformed example_filesystem"
  by code_simp

text \<open>
  After a successful \<open>createDiscreteFlow\<close> or \<open>createContinuousFlow\<close> the published flow
  directory holds the file \<open>descriptor.json\<close>, and its contents are the characters of the
  descriptor string that the stream took: the whole string when the write completes.
\<close>

lemma descriptor_holds_written_characters:
  "(\<not> isl (fst (createDiscreteFlow pf env mxlDomain flowId flowDef flowFormat grainCount
                   grainRate grainPayloadSize fs)) \<longrightarrow>
      map_of (snd (createDiscreteFlow pf env mxlDomain flowId flowDef flowFormat grainCount
                   grainRate grainPayloadSize fs))
        (makeFlowDescriptorFilePath (makeFlowDirectoryName mxlDomain (uuid_to_string pf flowId)))
      = Some (RegularFile (Text (stream_insert (descriptor_write_stops env) flowDef)))) \<and>
   (\<not> isl (fst (createContinuousFlow pf env mxlDomain flowId flowDef flowFormat sampleRate
                   channelCount sampleWordSize bufferLength fs)) \<longrightarrow>
      map_of (snd (createContinuousFlow pf env mxlDomain flowId flowDef flowFormat sampleRate
                   channelCount sampleWordSize bufferLength fs))
        (makeFlowDescriptorFilePath (makeFlowDirectoryName mxlDomain (uuid_to_string pf flowId)))
      = Some (RegularFile (Text (stream_insert (descriptor_write_stops env) flowDef))))"
proof (intro conjI impI)
  assume a: "\<not> isl (fst (createDiscreteFlow pf env mxlDomain flowId flowDef flowFormat grainCount
                   grainRate grainPayloadSize fs))"
  from createDiscreteFlow_success [OF a] obtain t where
    "snd (createDiscreteFlow pf env mxlDomain flowId flowDef flowFormat grainCount
           grainRate grainPayloadSize fs) =
     snd (createDiscreteFlow_try env mxlDomain t flowId (uuid_to_string pf flowId) flowDef
           (sanitizeFlowFormat pf flowFormat) grainCount grainRate grainPayloadSize
           (store t Directory fs))"
    and "\<not> isl (fst (createDiscreteFlow_try env mxlDomain t flowId (uuid_to_string pf flowId)
           flowDef (sanitizeFlowFormat pf flowFormat) grainCount grainRate
           grainPayloadSize (store t Directory fs)))"
    by blast
  then show "map_of (snd (createDiscreteFlow pf env mxlDomain flowId flowDef flowFormat grainCount
                   grainRate grainPayloadSize fs))
        (makeFlowDescriptorFilePath (makeFlowDirectoryName mxlDomain (uuid_to_string pf flowId)))
      = Some (RegularFile (Text (stream_insert (descriptor_write_stops env) flowDef)))"
    using createDiscreteFlow_try_descriptor by simp
next
  assume a: "\<not> isl (fst (createContinuousFlow pf env mxlDomain flowId flowDef flowFormat sampleRate
                   channelCount sampleWordSize bufferLength fs))"
  from createContinuousFlow_success [OF a] obtain t where
    "snd (createContinuousFlow pf env mxlDomain flowId flowDef flowFormat sampleRate
           channelCount sampleWordSize bufferLength fs) =
     snd (createContinuousFlow_try env mxlDomain t flowId (uuid_to_string pf flowId) flowDef
           (sanitizeFlowFormat pf flowFormat) sampleRate channelCount sampleWordSize
           bufferLength (store t Directory fs))"
    and "\<not> isl (fst (createContinuousFlow_try env mxlDomain t flowId (uuid_to_string pf flowId)
           flowDef (sanitizeFlowFormat pf flowFormat) sampleRate channelCount
           sampleWordSize bufferLength (store t Directory fs)))"
    by blast
  then show "map_of (snd (createContinuousFlow pf env mxlDomain flowId flowDef flowFormat sampleRate
                   channelCount sampleWordSize bufferLength fs))
        (makeFlowDescriptorFilePath (makeFlowDirectoryName mxlDomain (uuid_to_string pf flowId)))
      = Some (RegularFile (Text (stream_insert (descriptor_write_stops env) flowDef)))"
    using createContinuousFlow_try_descriptor by simp
qed

text \<open>
  Claim C8 does not hold of the code. The claim asks that after every successful
  creation \<open>descriptor.json\<close> holds the descriptor string byte for byte.
  \<open>writeFlowDescriptor\<close> tests the stream after opening the file and not after
  \<open>out << flowDef\<close>. When the write of the descriptor \<open>{}\<close> stops after one character,
  \<open>createDiscreteFlow\<close> and \<open>createContinuousFlow\<close> succeed all the same, and the published
  \<open>descriptor.json\<close> holds \<open>{\<close>.
\<close>

theorem descriptor_truncated_by_short_write:
  "\<not> isl (fst (createDiscreteFlow example_platform
                 (example_environment\<lparr>descriptor_write_stops := Some 1\<rparr>)
                 [''shm''] 1 ''{}'' 1 2 \<lparr>numerator = 60000, denominator = 1001\<rparr> 16
                 example_filesystem)) \<and>
   map_of (snd (createDiscreteFlow example_platform
                 (example_environment\<lparr>descriptor_write_stops := Some 1\<rparr>)
                 [''shm''] 1 ''{}'' 1 2 \<lparr>numerator = 60000, denominator = 1001\<rparr> 16
                 example_filesystem))
          [''shm'', ''0001.mxl-flow'', ''descriptor.json''] = Some (RegularFile (Text ''{'')) \<and>
   \<not> isl (fst (createContinuousFlow example_platform
                 (example_environment\<lparr>descriptor_write_stops := Some 1\<rparr>)
                 [''shm''] 1 ''{}'' 2 \<lparr>numerator = 48000, denominator = 1\<rparr> 2 4 4096
                 example_filesystem)) \<and>
   map_of (snd (createContinuousFlow example_platform
                 (example_environment\<lparr>descriptor_write_stops := Some 1\<rparr>)
                 [''shm''] 1 ''{}'' 2 \<lparr>numerator = 48000, denominator = 1\<rparr> 2 4 4096
                 example_filesystem))
          [''shm'', ''0001.mxl-flow'', ''descriptor.json''] = Some (RegularFile (Text ''{''))"
  by code_simp




theorem listFlows_exactly_published_witness:
  "listFlows example_platform example_environment [''shm''] example_filesystem = Inr [2] \<and>
   {u. \<exists>s. s \<noteq> [] \<and> is_directory example_filesystem (makeFlowDirectoryName [''shm''] s) \<and>
            uuid_from_string example_platform s = Some u} = {2} \<and>
   listFlows example_platform example_environment [''tmp''] example_filesystem =
     Inl (filesystem_error no_such_file_or_directory)"
proof (intro conjI)
  show run: "listFlows example_platform example_environment [''shm''] example_filesystem = Inr [2]"
    by code_simp
  have dir: "is_directory example_filesystem [''shm'']" by code_simp
  have it: "\<not> iteration_refused example_environment" by code_simp
  have "\<exists>ids. listFlows example_platform example_environment [''shm''] example_filesystem = Inr ids \<and>
      set ids = {u. \<exists>s. s \<noteq> [] \<and>
                  is_directory example_filesystem (makeFlowDirectoryName [''shm''] s) \<and>
                  uuid_from_string example_platform s = Some u}"
    using conjI [OF dir it] by (rule listFlows_exactly_published [THEN conjunct1, THEN mp])
  then obtain ids where "Inr ids = (Inr [2] :: error + uuid list)"
    and ids: "set ids = {u. \<exists>s. s \<noteq> [] \<and>
                  is_directory example_filesystem (makeFlowDirectoryName [''shm''] s) \<and>
                  uuid_from_string example_platform s = Some u}"
    unfolding run by metis
  then have "ids = [2]" by simp
  then show "{u. \<exists>s. s \<noteq> [] \<and> is_directory example_filesystem (makeFlowDirectoryName [''shm''] s) \<and>
            uuid_from_string example_platform s = Some u} = {2}"
    using ids by simp
next
  have missing: "\<not> exists_path example_filesystem [''tmp'']" by code_simp
  then show "listFlows example_platform example_environment [''tmp''] example_filesystem =
     Inl (filesystem_error no_such_file_or_directory)"
    by (rule listFlows_exactly_published [THEN conjunct2, THEN mp])
qed

theorem deleteFlow_total_and_reports_completed_removal_witness:
  "deleteFlow example_platform example_environment [''shm''] 1 example_filesystem =
     (Inr False, example_filesystem) \<and>
   fst (deleteFlow example_platform
          (example_environment\<lparr>delete_removal := Fails (\<lambda>p. p = [''shm'', ''0002.mxl-flow''])\<rparr>)
          [''shm''] 2 example_filesystem) = Inr False \<and>
   remove_all_fs [''shm'', ''0002.mxl-flow'']
       (snd (deleteFlow example_platform
          (example_environment\<lparr>delete_removal := Fails (\<lambda>p. p = [''shm'', ''0002.mxl-flow''])\<rparr>)
          [''shm''] 2 example_filesystem)) =
     remove_all_fs [''shm'', ''0002.mxl-flow''] example_filesystem \<and>
   deleteFlow example_platform example_environment [''shm''] 2 example_filesystem =
     (Inr True, remove_all_fs [''shm'', ''0002.mxl-flow''] example_filesystem) \<and>
   length (snd (deleteFlow example_platform example_environment [''shm''] 2 example_filesystem))
     < length example_filesystem \<and>
   \<not> exists_path (snd (deleteFlow example_platform example_environment [''shm''] 2
                        example_filesystem)) [''shm'', ''0002.mxl-flow'']"
proof -
  let ?failing =
    "example_environment\<lparr>delete_removal := Fails (\<lambda>p. p = [''shm'', ''0002.mxl-flow''])\<rparr>"
  have p: "makeFlowDirectoryName [''shm''] (uuid_to_string example_platform 2) =
      [''shm'', ''0002.mxl-flow'']"
    by code_simp
  have absent: "\<not> exists_path example_filesystem
      (makeFlowDirectoryName [''shm''] (uuid_to_string example_platform 1))"
    by code_simp
  have present: "exists_path example_filesystem [''shm'', ''0002.mxl-flow'']"
    by code_simp
  have fails: "delete_removal ?failing \<noteq> Completes"
    by simp
  have completes: "delete_removal example_environment = Completes"
    by (simp add: example_environment_def)
  have c1: "deleteFlow example_platform example_environment [''shm''] 1 example_filesystem =
     (Inr False, example_filesystem)"
    using conjI [OF wellformed_example absent]
    by (rule deleteFlow_total_and_reports_completed_removal
        [THEN conjunct2, THEN conjunct1, THEN mp])
  have c2: "fst (deleteFlow example_platform ?failing [''shm''] 2 example_filesystem) = Inr False \<and>
      length (snd (deleteFlow example_platform ?failing [''shm''] 2 example_filesystem))
        \<le> length example_filesystem \<and>
      remove_all_fs (makeFlowDirectoryName [''shm''] (uuid_to_string example_platform 2))
          (snd (deleteFlow example_platform ?failing [''shm''] 2 example_filesystem)) =
        remove_all_fs (makeFlowDirectoryName [''shm''] (uuid_to_string example_platform 2))
          example_filesystem"
    using fails
    by (rule deleteFlow_total_and_reports_completed_removal
        [THEN conjunct2, THEN conjunct2, THEN conjunct1, THEN mp])
  have c3: "deleteFlow example_platform example_environment [''shm''] 2 example_filesystem =
      (Inr (exists_path example_filesystem
              (makeFlowDirectoryName [''shm''] (uuid_to_string example_platform 2))),
       remove_all_fs (makeFlowDirectoryName [''shm''] (uuid_to_string example_platform 2))
         example_filesystem)"
    using conjI [OF wellformed_example completes]
    by (rule deleteFlow_total_and_reports_completed_removal
        [THEN conjunct2, THEN conjunct2, THEN conjunct2, THEN conjunct1, THEN mp])
  have c3': "deleteFlow example_platform example_environment [''shm''] 2 example_filesystem =
      (Inr True, remove_all_fs [''shm'', ''0002.mxl-flow''] example_filesystem)"
    using c3 [unfolded p] present by simp
  then have true: "fst (deleteFlow example_platform example_environment [''shm''] 2
      example_filesystem) = Inr True"
    by simp
  have c4: "length (snd (deleteFlow example_platform example_environment [''shm''] 2
      example_filesystem)) < length example_filesystem"
    using true deleteFlow_total_and_reports_completed_removal
        [of example_platform example_environment "[''shm'']" 2 example_filesystem,
         THEN conjunct2, THEN conjunct2, THEN conjunct2, THEN conjunct2, THEN conjunct1]
    by simp
  have c5: "\<not> exists_path (snd (deleteFlow example_platform example_environment [''shm''] 2
      example_filesystem)) (makeFlowDirectoryName [''shm''] (uuid_to_string example_platform 2))"
    using deleteFlow_total_and_reports_completed_removal
        [THEN conjunct2, THEN conjunct2, THEN conjunct2, THEN conjunct2, THEN conjunct2,
         THEN mp, OF true]
    by (rule conjunct2)
  show ?thesis
    using c1 c2 [unfolded p] c3' c4 c5 [unfolded p] by simp
qed

end
